(* ===== verification/Js_Prelude.thy ===== *)
theory Js_Prelude
  imports Main "HOL-Library.Sublist"
begin

text \<open>
  The parts of the JavaScript language and of its standard library that the scripts
  \<open>mqtt/aedes/mqtt.js\<close> and \<open>docker/ssl/authorization.js\<close> use, and the generic lemmas that
  the component theories share.

  A JavaScript string is a HOL \<^typ>\<open>string\<close>: a list of code units in the range 0 to 255.
  \<open>undefined\<close> (and \<open>null\<close>, where the code tells no difference) is \<open>None\<close>; an exception is
  \<open>Inl\<close> of a \<open>js_error\<close>. A number read from a string keeps its exact decimal value
  (mantissa and power of ten); the rounding to 64-bit floating point is not modelled, it does
  not change whether the value is zero for any literal above \<open>1e-323\<close>.
\<close>

named_theorems js_simps \<open>evaluation rules of the JavaScript library functions\<close>

section \<open>Errors and undefined values\<close>

datatype js_error = TypeError

type_synonym 'a js = "js_error + 'a"

text \<open>Comparisons of a possibly undefined number with a number: \<open>undefined\<close> converts to
  \<open>NaN\<close>, with which every comparison is false.\<close>

definition js_lt :: "nat option \<Rightarrow> nat \<Rightarrow> bool" where
  "js_lt x n = (case x of None \<Rightarrow> False | Some m \<Rightarrow> m < n)"

definition js_gt :: "nat option \<Rightarrow> nat \<Rightarrow> bool" where
  "js_gt x n = (case x of None \<Rightarrow> False | Some m \<Rightarrow> n < m)"

definition js_ge :: "nat option \<Rightarrow> nat \<Rightarrow> bool" where
  "js_ge x n = (case x of None \<Rightarrow> False | Some m \<Rightarrow> n \<le> m)"

text \<open>Addition where an operand may be \<open>NaN\<close> (\<open>None\<close>).\<close>

definition js_add :: "nat option \<Rightarrow> nat option \<Rightarrow> nat option" where
  "js_add x y = (case x of None \<Rightarrow> None | Some m \<Rightarrow> (case y of None \<Rightarrow> None | Some n \<Rightarrow> Some (m + n)))"

text \<open>An index argument of a string method: \<open>NaN\<close> is taken as 0.\<close>

definition js_index :: "nat option \<Rightarrow> nat" where
  "js_index x = (case x of None \<Rightarrow> 0 | Some n \<Rightarrow> n)"

lemma js_num_simps [js_simps, simp]:
  "js_lt None n = False" "js_lt (Some m) n = (m < n)"
  "js_gt None n = False" "js_gt (Some m) n = (n < m)"
  "js_ge None n = False" "js_ge (Some m) n = (n \<le> m)"
  "js_add (Some m) (Some k) = Some (m + k)" "js_add None y = None" "js_add x None = None"
  "js_index (Some m) = m" "js_index None = 0"
  by (simp_all add: js_lt_def js_gt_def js_ge_def js_add_def js_index_def split: option.split)

section \<open>String methods\<close>

text \<open>\<open>s.split(d)\<close> for a separator of one character: \<open>''.split(d)\<close> is \<open>['']\<close>.\<close>

fun js_split :: "char \<Rightarrow> string \<Rightarrow> string list" where
  "js_split d [] = [[]]"
| "js_split d (c # cs) =
     (if c = d then [] # js_split d cs
      else (case js_split d cs of [] \<Rightarrow> [[c]] | p # ps \<Rightarrow> (c # p) # ps))"

text \<open>\<open>parts.join(d)\<close>.\<close>

fun js_join :: "char \<Rightarrow> string list \<Rightarrow> string" where
  "js_join d [] = []"
| "js_join d [p] = p"
| "js_join d (p # q # ps) = p @ d # js_join d (q # ps)"

text \<open>\<open>s.replace('a', 'b')\<close>: the first occurrence only.\<close>

fun js_replace :: "char \<Rightarrow> char \<Rightarrow> string \<Rightarrow> string" where
  "js_replace a b [] = []"
| "js_replace a b (c # cs) = (if c = a then b # cs else c # js_replace a b cs)"

text \<open>\<open>s.replace(/a/g, 'b')\<close>: every occurrence.\<close>

definition js_replace_all :: "char \<Rightarrow> char \<Rightarrow> string \<Rightarrow> string" where
  "js_replace_all a b s = map (\<lambda>c. if c = a then b else c) s"

definition js_includes :: "string \<Rightarrow> char \<Rightarrow> bool" where
  "js_includes s c = (c \<in> set s)"

text \<open>\<open>xs.slice(i, j)\<close> for \<open>0 \<le> i\<close>, and \<open>xs[i]\<close>, which is \<open>undefined\<close> out of range.\<close>

definition js_slice :: "'a list \<Rightarrow> nat \<Rightarrow> nat \<Rightarrow> 'a list" where
  "js_slice xs i j = take (j - i) (drop i xs)"

definition js_nth :: "'a list \<Rightarrow> nat \<Rightarrow> 'a option" where
  "js_nth xs i = (if i < length xs then Some (xs ! i) else None)"

text \<open>\<open>data.codePointAt(i)\<close> on a string of bytes; \<open>undefined\<close> beyond the end.\<close>

definition codePointAt :: "string \<Rightarrow> nat option \<Rightarrow> nat option" where
  "codePointAt data i = map_option of_char (js_nth data (js_index i))"

text \<open>\<open>data.substring(i, j)\<close>: both ends are cut to the length and swapped if needed.\<close>

definition js_substring :: "string \<Rightarrow> nat option \<Rightarrow> nat option \<Rightarrow> string" where
  "js_substring s i j =
     (let a = min (js_index i) (js_index j); b = max (js_index i) (js_index j)
      in take (b - a) (drop a s))"

text \<open>\<open>s.toUpperCase()\<close> on the ASCII letters; other characters are unchanged.\<close>

definition upper_char :: "char \<Rightarrow> char" where
  "upper_char c = (let n = (of_char c :: nat) in if 97 \<le> n \<and> n \<le> 122 then char_of (n - 32) else c)"

definition js_toUpperCase :: "string \<Rightarrow> string" where
  "js_toUpperCase s = map upper_char s"

section \<open>Numbers and strings\<close>

text \<open>\<open>n.toString(16)\<close> and \<open>parseInt(s, 16)\<close>. The latter is modelled for a text without
  leading blanks, sign or \<open>0x\<close>, as \<open>toString(16)\<close> produces it; \<open>None\<close> is \<open>NaN\<close>.\<close>

definition hex_char :: "nat \<Rightarrow> char" where
  "hex_char n = char_of (if n < 10 then 48 + n else 87 + n)"

fun toString16 :: "nat \<Rightarrow> string" where
  "toString16 n = (if n < 16 then [hex_char n] else toString16 (n div 16) @ [hex_char (n mod 16)])"

declare toString16.simps [simp del]

definition hex_val :: "char \<Rightarrow> nat option" where
  "hex_val c =
     (let n = (of_char c :: nat) in
      if 48 \<le> n \<and> n \<le> 57 then Some (n - 48)
      else if 97 \<le> n \<and> n \<le> 102 then Some (n - 87)
      else if 65 \<le> n \<and> n \<le> 70 then Some (n - 55)
      else None)"

fun hex_prefix :: "nat \<Rightarrow> string \<Rightarrow> nat" where
  "hex_prefix acc [] = acc"
| "hex_prefix acc (c # cs) =
     (case hex_val c of None \<Rightarrow> acc | Some d \<Rightarrow> hex_prefix (16 * acc + d) cs)"

definition parseInt16 :: "string \<Rightarrow> nat option" where
  "parseInt16 s =
     (case s of [] \<Rightarrow> None | c # _ \<Rightarrow> if hex_val c = None then None else Some (hex_prefix 0 s))"

text \<open>\<open>Number(s)\<close>: the grammar of numeric string literals. \<open>Decimal m e\<close> is the double that JavaScript rounds
  \<open>m * 10 ^ e\<close> to: an integer of up to 53 bits is exact, a number of at most \<open>2 ^ -1075\<close> in size becomes zero.\<close>

datatype jsnum = NaN | Infinity bool | Decimal int int

definition is_blank :: "char \<Rightarrow> bool" where
  "is_blank c = (let n = (of_char c :: nat) in (9 \<le> n \<and> n \<le> 13) \<or> n = 32 \<or> n = 160)"

definition js_trim :: "string \<Rightarrow> string" where
  "js_trim s = rev (dropWhile is_blank (rev (dropWhile is_blank s)))"

definition digit_val :: "char \<Rightarrow> nat option" where
  "digit_val c = (let n = (of_char c :: nat) in if 48 \<le> n \<and> n \<le> 57 then Some (n - 48) else None)"

definition is_digit :: "char \<Rightarrow> bool" where
  "is_digit c = (digit_val c \<noteq> None)"

definition digits_value :: "nat \<Rightarrow> (char \<Rightarrow> nat option) \<Rightarrow> string \<Rightarrow> int" where
  "digits_value base val ds =
     foldl (\<lambda>a c. int base * a + int (case val c of None \<Rightarrow> 0 | Some d \<Rightarrow> d)) 0 ds"

text \<open>The digits after \<open>0x\<close>, \<open>0o\<close> or \<open>0b\<close>.\<close>

definition radix_literal :: "nat \<Rightarrow> string \<Rightarrow> jsnum" where
  "radix_literal base ds =
     (if ds \<noteq> [] \<and> list_all (\<lambda>c. case hex_val c of None \<Rightarrow> False | Some d \<Rightarrow> d < base) ds
      then Decimal (digits_value base hex_val ds) 0 else NaN)"

text \<open>The exponent part: nothing, or \<open>e\<close> with a sign and digits.\<close>

definition exponent_part :: "string \<Rightarrow> int option" where
  "exponent_part s =
     (case s of [] \<Rightarrow> Some 0
      | c # r \<Rightarrow>
          if c \<noteq> CHR ''e'' \<and> c \<noteq> CHR ''E'' then None
          else (let (sg, ds) =
                  (case r of [] \<Rightarrow> (1, [])
                   | x # xs \<Rightarrow> if x = CHR ''-'' then (- 1, xs)
                               else if x = CHR ''+'' then (1, xs) else (1, r))
                in if ds \<noteq> [] \<and> list_all is_digit ds
                   then Some (sg * digits_value 10 digit_val ds) else None))"

definition unsigned_literal :: "int \<Rightarrow> string \<Rightarrow> jsnum" where
  "unsigned_literal sg s =
     (if s = ''Infinity'' then Infinity (0 < sg)
      else (let ip = takeWhile is_digit s; r = dropWhile is_digit s in
            let (fp, r') = (case r of [] \<Rightarrow> ([], [])
                  | c # cs \<Rightarrow> if c = CHR ''.'' then (takeWhile is_digit cs, dropWhile is_digit cs)
                              else ([], r))
            in if ip = [] \<and> fp = [] then NaN
               else (case exponent_part r' of None \<Rightarrow> NaN
                     | Some e \<Rightarrow> Decimal (sg * digits_value 10 digit_val (ip @ fp))
                                         (e - int (length fp)))))"

fun js_Number_trimmed :: "string \<Rightarrow> jsnum" where
  "js_Number_trimmed [] = Decimal 0 0"
| "js_Number_trimmed (c # cs) =
     (if c = CHR ''-'' then unsigned_literal (- 1) cs
      else if c = CHR ''+'' then unsigned_literal 1 cs
      else (case cs of [] \<Rightarrow> unsigned_literal 1 (c # cs)
            | d # ds \<Rightarrow>
                if c = CHR ''0'' \<and> d \<in> {CHR ''x'', CHR ''X''} then radix_literal 16 ds
                else if c = CHR ''0'' \<and> d \<in> {CHR ''o'', CHR ''O''} then radix_literal 8 ds
                else if c = CHR ''0'' \<and> d \<in> {CHR ''b'', CHR ''B''} then radix_literal 2 ds
                else unsigned_literal 1 (c # cs)))"

definition js_Number :: "string \<Rightarrow> jsnum" where
  "js_Number s = js_Number_trimmed (js_trim s)"

text \<open>\<open>x < n\<close> for an integer \<open>n\<close> and numbers that are exact, as those that the scripts compare are, and the truth
  value of a number, which is false for a number that is rounded to zero.\<close>

fun jsnum_less :: "jsnum \<Rightarrow> int \<Rightarrow> bool" where
  "jsnum_less NaN n = False"
| "jsnum_less (Infinity pos) n = (\<not> pos)"
| "jsnum_less (Decimal m e) n =
     (if 0 \<le> e then m * 10 ^ nat e < n else m < n * 10 ^ nat (- e))"

fun jsnum_truthy :: "jsnum \<Rightarrow> bool" where
  "jsnum_truthy NaN = False"
| "jsnum_truthy (Infinity pos) = True"
| "jsnum_truthy (Decimal m e) = (if 0 \<le> e then m \<noteq> 0 else 10 ^ nat (- e) < \<bar>m\<bar> * 2 ^ 1075)"

section \<open>Lemmas on splitting and joining\<close>

lemma js_split_not_Nil [simp]: "js_split d s \<noteq> []"
  by (induction s) (auto split: list.splits)

lemma js_split_no_sep [simp]: "d \<notin> set s \<Longrightarrow> js_split d s = [s]"
  by (induction s) auto

lemma js_split_append_sep [simp]: "js_split d (a @ d # b) = js_split d a @ js_split d b"
  by (induction a) (auto split: list.splits)

lemma js_split_parts: "p \<in> set (js_split d s) \<Longrightarrow> d \<notin> set p \<and> set p \<subseteq> set s"
proof (induction s arbitrary: p)
  case (Cons c s)
  then show ?case
    by (cases "js_split d s") (force split: if_splits)+
qed simp

lemma js_split_first: "js_split d s ! 0 = takeWhile (\<lambda>c. c \<noteq> d) s"
proof (induction s)
  case (Cons c s)
  then show ?case
    by (cases "js_split d s") auto
qed simp

lemma js_join_Cons: "ps \<noteq> [] \<Longrightarrow> js_join d (p # ps) = p @ d # js_join d ps"
  by (cases ps) auto

lemma js_join_split [simp]: "js_join d (js_split d s) = s"
proof (induction s)
  case (Cons c s)
  then show ?case
  proof (cases "js_split d s")
    case (Cons p ps)
    with Cons.IH show ?thesis
      by (cases ps) auto
  qed simp
qed simp

lemma js_split_join:
  "ps \<noteq> [] \<Longrightarrow> \<forall>p\<in>set ps. d \<notin> set p \<Longrightarrow> js_split d (js_join d ps) = ps"
proof (induction ps)
  case (Cons p ps)
  then show ?case
    by (cases ps) auto
qed simp

lemma js_split_join_concat:
  "ps \<noteq> [] \<Longrightarrow> js_split d (js_join d ps) = concat (map (js_split d) ps)"
proof (induction ps)
  case (Cons p ps)
  then show ?case
    by (cases ps) auto
qed simp

lemma js_join_append:
  "ps \<noteq> [] \<Longrightarrow> qs \<noteq> [] \<Longrightarrow> js_join d (ps @ qs) = js_join d ps @ d # js_join d qs"
proof (induction ps)
  case (Cons p ps)
  then show ?case
    by (cases "ps = []") (auto simp: js_join_Cons)
qed simp

lemma set_js_join: "set (js_join d ps) \<subseteq> insert d (\<Union> (set ` set ps))"
  by (induction ps rule: js_join.induct[of _ d]) auto

lemma js_replace_id [simp]: "a \<notin> set s \<Longrightarrow> js_replace a b s = s"
  by (induction s) auto

lemma js_replace_append_first:
  "a \<notin> set p \<Longrightarrow> js_replace a b (p @ a # s) = p @ b # s"
  by (induction p) auto

lemma js_replace_all_join:
  "\<forall>p\<in>set ps. a \<notin> set p \<Longrightarrow> js_replace_all a b (js_join a ps) = js_join b ps"
proof (induction ps)
  case (Cons p ps)
  moreover have "map (\<lambda>c. if c = a then b else c) p = p"
    using Cons.prems by (intro map_idI) auto
  ultimately show ?case
    by (cases ps) (auto simp: js_replace_all_def)
qed (simp add: js_replace_all_def)

lemma js_replace_commute:
  "distinct [a, b, c, d] \<Longrightarrow> js_replace a b (js_replace c d s) = js_replace c d (js_replace a b s)"
  by (induction s) auto

lemma set_js_replace: "set (js_replace a b s) \<subseteq> insert b (set s)"
  by (induction s) auto

lemma count_js_replace: "a \<noteq> b \<Longrightarrow> count_list (js_replace a b s) a = count_list s a - 1"
  by (induction s) auto

lemma js_replace_single: "a \<noteq> b \<Longrightarrow> count_list s a \<le> 1 \<Longrightarrow> a \<notin> set (js_replace a b s)"
  using count_js_replace [of a b s] by (simp add: count_list_0_iff [symmetric])

text \<open>Replacing the first occurrence and replacing it back.\<close>

lemma js_replace_inverse: "b \<notin> set s \<Longrightarrow> js_replace b a (js_replace a b s) = s"
  by (induction s) auto

section \<open>Lemmas on indexing\<close>

lemma codePointAt_append [simp]:
  "codePointAt (a @ c # b) (Some (length a)) = Some (of_char c)"
  by (simp add: codePointAt_def js_nth_def)

lemma codePointAt_in: "i < length s \<Longrightarrow> codePointAt s (Some i) = Some (of_char (s ! i))"
  by (simp add: codePointAt_def js_nth_def)

lemma codePointAt_out: "length s \<le> i \<Longrightarrow> codePointAt s (Some i) = None"
  by (simp add: codePointAt_def js_nth_def)

lemma codePointAt_byte: "codePointAt s i = Some n \<Longrightarrow> n < 256"
  by (auto simp: codePointAt_def)

lemma js_substring_append:
  "js_substring (a @ b @ c) (Some (length a)) (Some (length a + length b)) = b"
  by (simp add: js_substring_def)

lemma js_slice_all: "js_slice xs i (length xs) = drop i xs"
  by (simp add: js_slice_def)

section \<open>Lemmas on hexadecimal numbers\<close>

lemma hex_val_hex_char [simp]: "n < 16 \<Longrightarrow> hex_val (hex_char n) = Some n"
  by (simp add: hex_val_def hex_char_def Let_def)

lemma toString16_small [simp]: "n < 16 \<Longrightarrow> toString16 n = [hex_char n]"
  by (simp add: toString16.simps)

lemma toString16_two: "16 \<le> n \<Longrightarrow> n < 256 \<Longrightarrow> toString16 n = [hex_char (n div 16), hex_char (n mod 16)]"
  by (simp add: toString16.simps [of n])

lemma hex_prefix_toString16_append:
  "hex_prefix acc (toString16 n @ s) = hex_prefix (acc * 16 ^ length (toString16 n) + n) s"
proof (induction n arbitrary: acc s rule: toString16.induct)
  case (1 n)
  show ?case
  proof (cases "n < 16")
    case False
    with 1 have "hex_prefix acc (toString16 (n div 16) @ hex_char (n mod 16) # s) =
        hex_prefix (acc * 16 ^ length (toString16 (n div 16)) + n div 16) (hex_char (n mod 16) # s)"
      by simp
    with False show ?thesis
      by (simp add: toString16.simps [of n] algebra_simps)
  qed (simp add: algebra_simps)
qed

lemma parseInt16_append:
  "parseInt16 (toString16 m @ s) = Some (hex_prefix m s)"
proof -
  have "\<exists>d ds. toString16 m = hex_char d # ds \<and> d < 16"
  proof (induction m rule: toString16.induct)
    case (1 n)
    then show ?case
      by (cases "n < 16") (auto simp: toString16.simps [of n])
  qed
  then obtain d ds where d: "toString16 m = hex_char d # ds" "d < 16"
    by blast
  have "parseInt16 (toString16 m @ s) = Some (hex_prefix 0 (toString16 m @ s))"
    using d by (simp add: parseInt16_def)
  then show ?thesis
    by (simp add: hex_prefix_toString16_append)
qed

text \<open>The value of a hexadecimal text read as a decimal number is below 2 only for the texts of
  0 and 1.\<close>

lemma hex_char_digit:
  assumes "d < 16"
  shows "\<not> is_blank (hex_char d)"
    and "digit_val (hex_char d) = (if d < 10 then Some d else None)"
    and "of_char (hex_char d) = (if d < 10 then 48 + d else 87 + d)"
  using assms by (simp_all add: is_blank_def digit_val_def hex_char_def Let_def)

lemma hex_char_neq:
  assumes "d < 16" and "(of_char c :: nat) < 48 \<or> 102 < (of_char c :: nat) \<or>
    57 < (of_char c :: nat) \<and> (of_char c :: nat) < 97"
  shows "hex_char d \<noteq> c"
  using hex_char_digit(3) [OF assms(1)] assms by (auto split: if_splits)

lemma hex_char_neq_chars [simp]:
  assumes "d < 16"
  shows "hex_char d \<noteq> CHR ''-''" "hex_char d \<noteq> CHR ''+''" "hex_char d \<noteq> CHR ''.''"
    "hex_char d \<noteq> CHR ''E''" "hex_char d \<noteq> CHR ''I''"
  using assms by (simp_all add: hex_char_neq)

lemma hex_char_zero: "d < 16 \<Longrightarrow> hex_char d = CHR ''0'' \<longleftrightarrow> d = 0"
  by (subst of_char_eq_iff [where 'a = nat, symmetric])
     (simp del: of_char_eq_iff add: hex_char_digit)

lemma js_trim_id: "\<forall>c\<in>set s. \<not> is_blank c \<Longrightarrow> js_trim s = s"
proof -
  have *: "dropWhile is_blank t = t" if "\<forall>c\<in>set t. \<not> is_blank c" for t
    using that by (cases t) auto
  assume "\<forall>c\<in>set s. \<not> is_blank c"
  then show ?thesis
    by (simp add: js_trim_def *)
qed

lemma unsigned_literal_one:
  "d < 16 \<Longrightarrow> unsigned_literal 1 [hex_char d] = (if d < 10 then Decimal (int d) 0 else NaN)"
  by (simp add: unsigned_literal_def is_digit_def hex_char_digit exponent_part_def digits_value_def)

lemma unsigned_literal_two:
  "d < 16 \<Longrightarrow> e < 16 \<Longrightarrow> unsigned_literal 1 [hex_char d, hex_char e] =
     (if d < 10 \<and> e < 10 then Decimal (10 * int d + int e) 0 else NaN)"
  by (simp add: unsigned_literal_def is_digit_def hex_char_digit exponent_part_def digits_value_def)

lemma Number_toString16_less_2:
  assumes "n < 256"
  shows "jsnum_less (js_Number (toString16 n)) 2 = (n < 2)"
proof (cases "n < 16")
  case True
  then have "js_trim (toString16 n) = [hex_char n]"
    by (simp add: js_trim_id hex_char_digit)
  with True show ?thesis
    by (simp add: js_Number_def unsigned_literal_one)
next
  case False
  let ?d = "n div 16" and ?e = "n mod 16"
  have d: "?d < 16" "?d \<noteq> 0" "?e < 16" and two: "toString16 n = [hex_char ?d, hex_char ?e]"
    using False assms by (auto simp: toString16_two)
  have "js_trim (toString16 n) = [hex_char ?d, hex_char ?e]"
    unfolding two using d by (intro js_trim_id) (simp add: hex_char_digit)
  with d False show ?thesis
    by (simp add: js_Number_def hex_char_zero unsigned_literal_two)
qed

end
