(* ===== verification/Mqtt_Connect.thy ===== *)
theory Mqtt_Connect
  imports Js_Prelude
begin

text \<open>
  The parser of MQTT CONNECT packets in \<open>docker/ssl/authorization.js\<close>: \<open>parsePackage\<close> (lines 44
  to 127) with its two loops, and \<open>calcLen\<close> (lines 156 to 162). The packet is a string of bytes.

  The reference is the packet layout that the comment of \<open>parsePackage\<close> describes, written as
  an encoder \<open>encode_connect\<close>. The theorems say for which packets the parser finds the
  password, and that it does not for the others.
\<close>

section \<open>The code\<close>

text \<open>\<open>calcLen(msb, lsb)\<close>: two hexadecimal texts; \<open>lsb < 2\<close> compares \<open>Number(lsb)\<close>.\<close>

definition calcLen :: "string \<Rightarrow> string \<Rightarrow> nat option" where
  "calcLen msb lsb =
     (let lsb = (if jsnum_less (js_Number lsb) 2 then CHR ''0'' # lsb else lsb)
      in parseInt16 (msb @ lsb))"

text \<open>The loop over the bytes of the remaining length (lines 86 to 93).\<close>

function len_size_loop :: "string \<Rightarrow> nat \<Rightarrow> nat \<Rightarrow> nat" where
  "len_size_loop data remaining_len len_size =
     (if remaining_len < 5 then
        (if js_gt (codePointAt data (Some remaining_len)) 128
         then len_size_loop data (remaining_len + 1) (len_size + 1)
         else len_size)
      else len_size)"
  by pat_completeness auto
termination
  by (relation "measure (\<lambda>(data, r, n). 5 - r)") auto

declare len_size_loop.simps [simp del]

text \<open>The loop over the length-prefixed fields (lines 115 to 123); calling \<open>toString\<close> on
  \<open>undefined\<close> throws.\<close>

function skip_fields ::
  "string \<Rightarrow> nat \<Rightarrow> nat \<Rightarrow> nat option \<Rightarrow> nat option \<Rightarrow> (nat option \<times> nat option) js" where
  "skip_fields data shift_flags i shift len =
     (if i < shift_flags then
        (case codePointAt data shift of
           None \<Rightarrow> Inl TypeError
         | Some msb \<Rightarrow>
             (case codePointAt data (js_add shift (Some 1)) of
                None \<Rightarrow> Inl TypeError
              | Some lsb \<Rightarrow>
                  (let len = calcLen (toString16 msb) (toString16 lsb);
                       shift = js_add shift (Some 2);
                       shift = (if i \<noteq> shift_flags - 1 then js_add shift len else shift)
                   in skip_fields data shift_flags (i + 1) shift len)))
      else Inr (shift, len))"
  by pat_completeness auto
termination
  by (relation "measure (\<lambda>(data, k, i, sh, l). k - i)") auto

declare skip_fields.simps [simp del]

text \<open>\<open>parsePackage(s, data)\<close>: the messages it passes to \<open>s.error\<close> and the password.\<close>

definition parsePackage :: "string \<Rightarrow> (string list \<times> string) js" where
  "parsePackage data =
     (let len_size = len_size_loop data 1 1;
          flags_pos = 1 + len_size + 2 + 4 + 1;
          flags = codePointAt data (Some flags_pos)
      in if js_lt flags 192
         then Inr ([''MQTT username or password not provided''], [])
         else (let shift = flags_pos + 1 + 2;
                   shift_flags = (if js_ge flags 196 then 5 else 3)
               in case skip_fields data shift_flags 0 (Some shift) None of
                    Inl e \<Rightarrow> Inl e
                  | Inr (shift, len) \<Rightarrow> Inr ([], js_substring data shift (js_add shift len))))"

section \<open>The reference encoder\<close>

text \<open>The remaining length: seven bits a byte, the top bit set on all but the last.\<close>

fun remaining_length :: "nat \<Rightarrow> string" where
  "remaining_length n =
     (if n < 128 then [char_of n] else char_of (128 + n mod 128) # remaining_length (n div 128))"

declare remaining_length.simps [simp del]

text \<open>A field: two bytes of length and the value.\<close>

definition field :: "string \<Rightarrow> string" where
  "field v = char_of (length v div 256) # char_of (length v mod 256) # v"

record mqtt_connect =
  header_flags :: nat
  keep_alive :: nat
  client_id :: string
  will :: "(string \<times> string) option"
  will_qos :: nat
  will_retain :: bool
  clean_session :: bool
  user_name :: "string option"
  user_password :: "string option"

definition connect_flags :: "mqtt_connect \<Rightarrow> nat" where
  "connect_flags p =
     (if user_name p = None then 0 else 128) + (if user_password p = None then 0 else 64)
     + (if will_retain p then 32 else 0) + 8 * will_qos p + (if will p = None then 0 else 4)
     + (if clean_session p then 2 else 0)"

definition connect_fields :: "mqtt_connect \<Rightarrow> string list" where
  "connect_fields p =
     client_id p # (case will p of None \<Rightarrow> [] | Some (topic, msg) \<Rightarrow> [topic, msg])
     @ (case user_name p of None \<Rightarrow> [] | Some u \<Rightarrow> [u])
     @ (case user_password p of None \<Rightarrow> [] | Some w \<Rightarrow> [w])"

definition connect_body :: "mqtt_connect \<Rightarrow> string" where
  "connect_body p =
     [char_of (0::nat), char_of (4::nat)] @ ''MQTT'' @
     [char_of (4::nat), char_of (connect_flags p),
      char_of (keep_alive p div 256), char_of (keep_alive p mod 256)]
     @ concat (map field (connect_fields p))"

definition encode_connect :: "mqtt_connect \<Rightarrow> string" where
  "encode_connect p =
     char_of (16 + header_flags p) # remaining_length (length (connect_body p)) @ connect_body p"

text \<open>The layout of the packets of MQTT 3.1.1: no password without a user name, no will options without a
  will, and everything in the range of its bytes. Which characters a text may have (valid UTF-8 without
  \<open>U+0000\<close>) is no part of it: neither the script nor the broker's parser looks at that.\<close>

definition wf_connect :: "mqtt_connect \<Rightarrow> bool" where
  "wf_connect p \<longleftrightarrow>
     header_flags p < 16 \<and> keep_alive p < 65536 \<and> will_qos p \<le> 2 \<and>
     (will p = None \<longrightarrow> will_qos p = 0 \<and> \<not> will_retain p) \<and>
     (user_password p \<noteq> None \<longrightarrow> user_name p \<noteq> None) \<and>
     list_all (\<lambda>v. length v < 65536) (connect_fields p) \<and>
     length (connect_body p) < 128 ^ 4"

section \<open>Lengths of fields\<close>

text \<open>A two-byte length that \<open>calcLen\<close> reads correctly: the low byte has two hexadecimal
  digits, or is 0 or 1, or the high byte is 0.\<close>

definition len_ok :: "nat \<Rightarrow> bool" where
  "len_ok n \<longleftrightarrow> n < 256 \<or> n mod 256 < 2 \<or> 16 \<le> n mod 256"

lemma calcLen_bytes:
  assumes "l < 256"
  shows "calcLen (toString16 m) (toString16 l) =
    Some (if 2 \<le> l \<and> l < 16 then 16 * m + l else 256 * m + l)"
proof -
  have zero: "hex_val CHR ''0'' = Some 0"
    by (simp add: hex_val_def)
  have "calcLen (toString16 m) (toString16 l) =
      parseInt16 (toString16 m @ (if l < 2 then CHR ''0'' # toString16 l else toString16 l))"
    by (simp only: calcLen_def Let_def Number_toString16_less_2 [OF assms])
  moreover consider "l < 2" | "2 \<le> l" "l < 16" | "16 \<le> l"
    by linarith
  ultimately show ?thesis
    using assms by cases (simp_all add: parseInt16_append zero toString16_two)
qed

text \<open>
  C29. \<open>calcLen\<close> returns the big-endian value of its two bytes exactly when the high byte is 0
  or the low byte is not one of 2 to 15; there the missing leading zero makes it return
  \<open>16 * msb + lsb\<close>.
\<close>

theorem calcLen_correct_iff:
  assumes "m < 256" and "l < 256"
  shows "calcLen (toString16 m) (toString16 l) = Some (256 * m + l) \<longleftrightarrow> m = 0 \<or> l < 2 \<or> 16 \<le> l"
  using assms by (auto simp: calcLen_bytes)

theorem calcLen_correct_iff_witness:
  "calcLen (toString16 1) (toString16 44) = Some 300 \<and> calcLen (toString16 1) (toString16 5) \<noteq> Some 261"
  using calcLen_correct_iff [of 1 44] calcLen_correct_iff [of 1 5] by simp

lemma calcLen_len_ok:
  "n < 65536 \<Longrightarrow> len_ok n \<Longrightarrow> calcLen (toString16 (n div 256)) (toString16 (n mod 256)) = Some n"
  by (auto simp: calcLen_bytes len_ok_def)

lemma length_field [simp]: "length (field v) = length v + 2"
  by (simp add: field_def)

lemma field_not_Nil [simp]: "field v \<noteq> []"
  by (simp add: field_def)

lemma codePointAt_field:
  assumes "length v < 65536"
  shows "codePointAt (pre @ field v @ rest) (Some (length pre)) = Some (length v div 256)"
    and "codePointAt (pre @ field v @ rest) (Some (length pre + 1)) = Some (length v mod 256)"
  using assms by (simp_all add: field_def codePointAt_def js_nth_def nth_append)

section \<open>The remaining length\<close>

text \<open>The lengths whose encoding has no continuation byte equal to 128.\<close>

fun rem_ok :: "nat \<Rightarrow> bool" where
  "rem_ok n = (if n < 128 then True else n mod 128 \<noteq> 0 \<and> rem_ok (n div 128))"

declare rem_ok.simps [simp del]

lemma remaining_length_not_Nil [simp]: "remaining_length n \<noteq> []"
  by (subst remaining_length.simps) simp

lemma length_remaining_length: "n < 128 ^ k \<Longrightarrow> 0 < k \<Longrightarrow> length (remaining_length n) \<le> k"
proof (induction k arbitrary: n)
  case (Suc k)
  show ?case
  proof (cases "n < 128")
    case False
    then have "0 < k"
      using Suc.prems by (cases k) auto
    moreover have "n div 128 < 128 ^ k"
      using Suc.prems by (simp add: less_mult_imp_div_less mult.commute)
    ultimately show ?thesis
      using False Suc.IH [of "n div 128"] by (simp add: remaining_length.simps [of n])
  qed (simp add: remaining_length.simps [of n])
qed simp

text \<open>The loop stops at the last byte of the length, or earlier, at a byte equal to 128.\<close>

lemma len_size_loop_le:
  "length pre + length (remaining_length n) \<le> 5 \<Longrightarrow>
   len_size_loop (pre @ remaining_length n @ rest) (length pre) k < k + length (remaining_length n) \<and>
   (len_size_loop (pre @ remaining_length n @ rest) (length pre) k + 1 =
      k + length (remaining_length n) \<longleftrightarrow> rem_ok n)"
proof (induction n arbitrary: pre k rule: remaining_length.induct)
  case (1 n)
  let ?l = "remaining_length n"
  have pre: "length pre < 5"
    using 1 by (cases ?l) auto
  show ?case
  proof (cases "n < 128")
    case True
    then show ?thesis
      using pre by (simp add: len_size_loop.simps [of _ "length pre"] remaining_length.simps [of n]
          rem_ok.simps [of n])
  next
    case False
    let ?c = "char_of (128 + n mod 128) :: char" and ?r = "remaining_length (n div 128)"
    have l: "?l = ?c # ?r"
      using False by (simp add: remaining_length.simps [of n])
    have c: "codePointAt (pre @ ?l @ rest) (Some (length pre)) = Some (128 + n mod 128)"
      by (simp add: l)
    show ?thesis
    proof (cases "n mod 128 = 0")
      case True
      then show ?thesis
        using False pre c by (simp add: len_size_loop.simps [of _ "length pre"] rem_ok.simps [of n] l)
    next
      case mod: False
      have "len_size_loop (pre @ ?l @ rest) (length pre) k =
          len_size_loop ((pre @ [?c]) @ ?r @ rest) (length (pre @ [?c])) (k + 1)"
        using pre c mod by (simp add: len_size_loop.simps [of _ "length pre"] l)
      with "1.IH" [of "pre @ [?c]" "k + 1"] "1.prems" False mod show ?thesis
        by (simp add: rem_ok.simps [of n] l)
    qed
  qed
qed

text \<open>
  C30. The loop over the remaining length computes the number of its bytes exactly for the lengths
  with no continuation byte equal to 128; a length such as 128 or 16384 is cut short, because
  the code tests \<open>> 128\<close> and not \<open>>= 128\<close>.
\<close>

theorem len_size_loop_correct_iff:
  assumes "n < 128 ^ 4"
  shows "len_size_loop (c # remaining_length n @ rest) 1 1 = length (remaining_length n) \<longleftrightarrow> rem_ok n"
    (is "?l = _ \<longleftrightarrow> _")
proof -
  have "length (remaining_length n) \<le> 4"
    using length_remaining_length [OF assms] by simp
  with len_size_loop_le [of "[c]" n rest 1] show ?thesis
    by simp
qed

theorem len_size_loop_correct_iff_witness:
  "len_size_loop (char_of (16::nat) # remaining_length 300 @ []) 1 1 = length (remaining_length 300) \<and>
   len_size_loop (char_of (16::nat) # remaining_length 128 @ []) 1 1 \<noteq> length (remaining_length 128)"
  using len_size_loop_correct_iff [of 300 "char_of (16::nat)" "[]"]
    len_size_loop_correct_iff [of 128 "char_of (16::nat)" "[]"]
  by (simp add: rem_ok.simps)

section \<open>The fields\<close>

lemma skip_fields_step:
  assumes "i < k" and "length v < 65536"
  shows "skip_fields (pre @ field v @ rest) k i (Some (length pre)) l =
    (let len = calcLen (toString16 (length v div 256)) (toString16 (length v mod 256));
         shift = (if i \<noteq> k - 1 then js_add (Some (length pre + 2)) len else Some (length pre + 2))
     in skip_fields (pre @ field v @ rest) k (i + 1) shift len)"
  using assms by (simp add: skip_fields.simps [of _ k i] codePointAt_field Let_def del: One_nat_def)

lemma skip_fields_fields:
  assumes "fs \<noteq> []" and "\<forall>v\<in>set fs. length v < 65536 \<and> len_ok (length v)" and "i + length fs = k"
  shows "skip_fields (pre @ concat (map field fs) @ rest) k i (Some (length pre)) l =
    Inr (Some (length pre + length (concat (map field (butlast fs))) + 2), Some (length (last fs)))"
  using assms
proof (induction fs arbitrary: pre i l)
  case (Cons v fs)
  let ?data = "pre @ concat (map field (v # fs)) @ rest"
  have v: "length v < 65536" "calcLen (toString16 (length v div 256)) (toString16 (length v mod 256))
      = Some (length v)" and i: "i < k"
    using Cons.prems by (auto simp: calcLen_len_ok)
  show ?case
  proof (cases "fs = []")
    case True
    then show ?thesis
      using Cons.prems skip_fields_step [OF i v(1), of pre rest l] v(2)
      by (auto simp: skip_fields.simps [of _ k k])
  next
    case False
    have "i \<noteq> k - 1"
      using False Cons.prems by (cases fs) auto
    then have "skip_fields ?data k i (Some (length pre)) l =
        skip_fields ((pre @ field v) @ concat (map field fs) @ rest) k (i + 1)
          (Some (length (pre @ field v))) (Some (length v))"
      using skip_fields_step [OF i v(1), of pre "concat (map field fs) @ rest" l] v(2)
      by (simp add: add.commute add.left_commute)
    with Cons.IH [of "i + 1" "pre @ field v" "Some (length v)"] Cons.prems False show ?thesis
      by simp
  qed
qed simp

lemma fields_last: "fs \<noteq> [] \<Longrightarrow>
   js_substring (pre @ concat (map field fs) @ rest)
     (Some (length pre + length (concat (map field (butlast fs))) + 2))
     (js_add (Some (length pre + length (concat (map field (butlast fs))) + 2)) (Some (length (last fs))))
   = last fs"
proof -
  assume "fs \<noteq> []"
  then have fs: "fs = butlast fs @ [last fs]"
    by simp
  let ?pre = "pre @ concat (map field (butlast fs)) @
      [char_of (length (last fs) div 256), char_of (length (last fs) mod 256)]"
  have "pre @ concat (map field fs) @ rest = ?pre @ last fs @ rest"
    by (subst fs) (simp add: field_def del: append_butlast_last_id)
  then show ?thesis
    using js_substring_append [of ?pre "last fs" rest] by simp
qed

section \<open>Parsing a CONNECT packet\<close>

text \<open>What the parser does once the length of the header is known: \<open>h\<close> is the fixed header, the
  ten bytes of the variable header follow.\<close>

definition variable_header :: "nat \<Rightarrow> nat \<Rightarrow> string" where
  "variable_header flags ka =
     [char_of (0::nat), char_of (4::nat)] @ ''MQTT'' @
     [char_of (4::nat), char_of flags, char_of (ka div 256), char_of (ka mod 256)]"

lemma length_variable_header [simp]: "length (variable_header flags ka) = 10"
  by (simp add: variable_header_def)

lemma parsePackage_header:
  assumes "len_size_loop (h @ variable_header flags ka @ payload) 1 1 + 1 = length h"
    and "flags < 256"
  shows "parsePackage (h @ variable_header flags ka @ payload) =
    (if flags < 192 then Inr ([''MQTT username or password not provided''], [])
     else (case skip_fields (h @ variable_header flags ka @ payload) (if 196 \<le> flags then 5 else 3)
                  0 (Some (length h + 10)) None of
             Inl e \<Rightarrow> Inl e
           | Inr (shift, len) \<Rightarrow>
               Inr ([], js_substring (h @ variable_header flags ka @ payload) shift (js_add shift len))))"
proof -
  let ?data = "h @ variable_header flags ka @ payload"
  have pos: "1 + len_size_loop ?data 1 1 + 2 + 4 + 1 = length h + 7"
    using assms(1) by simp
  have "codePointAt ?data (Some (length h + 7)) = Some flags"
    using assms(2) by (simp add: codePointAt_def js_nth_def nth_append variable_header_def)
  then show ?thesis
    unfolding parsePackage_def Let_def pos by (simp add: ac_simps)
qed

lemma connect_flags_less: "wf_connect p \<Longrightarrow> connect_flags p < 256"
  by (auto simp: wf_connect_def connect_flags_def)

lemma connect_flags_password:
  "wf_connect p \<Longrightarrow> connect_flags p < 192 \<longleftrightarrow> user_password p = None"
  by (auto simp: wf_connect_def connect_flags_def)

lemma connect_flags_will:
  "wf_connect p \<Longrightarrow> user_password p \<noteq> None \<Longrightarrow> 196 \<le> connect_flags p \<longleftrightarrow> will p \<noteq> None"
  by (auto simp: wf_connect_def connect_flags_def)

lemma connect_body_eq:
  "connect_body p = variable_header (connect_flags p) (keep_alive p) @ concat (map field (connect_fields p))"
  by (simp add: connect_body_def variable_header_def)

lemma length_connect_fields:
  assumes "wf_connect p" and "user_password p = Some w"
  shows "length (connect_fields p) = (if will p = None then 3 else 5)"
    and "last (connect_fields p) = w"
  using assms by (auto simp: connect_fields_def wf_connect_def split: option.splits)

lemma len_size_encode_connect:
  assumes "wf_connect p" and "rem_ok (length (connect_body p))"
  shows "len_size_loop (encode_connect p) 1 1 = length (remaining_length (length (connect_body p)))"
proof -
  have n: "length (connect_body p) < 128 ^ 4"
    using assms(1) by (simp add: wf_connect_def)
  have "length (remaining_length (length (connect_body p))) \<le> 4"
    using length_remaining_length [OF n] by simp
  with len_size_loop_le [of "[char_of (16 + header_flags p)]" "length (connect_body p)" "connect_body p" 1]
    assms(2)
  show ?thesis
    by (simp add: encode_connect_def)
qed

lemma parsePackage_encode_eq:
  assumes wf: "wf_connect p" and rem: "rem_ok (length (connect_body p))"
    and lens: "list_all (\<lambda>v. len_ok (length v)) (connect_fields p)"
  shows "parsePackage (encode_connect p) =
    (case user_password p of
       None \<Rightarrow> Inr ([''MQTT username or password not provided''], [])
     | Some w \<Rightarrow> Inr ([], w))"
proof -
  let ?h = "char_of (16 + header_flags p) # remaining_length (length (connect_body p))"
  let ?fs = "connect_fields p"
  let ?vh = "variable_header (connect_flags p) (keep_alive p)"
  have enc: "encode_connect p = ?h @ ?vh @ concat (map field ?fs) @ []"
    by (simp add: encode_connect_def connect_body_eq)
  have len: "len_size_loop (?h @ ?vh @ concat (map field ?fs) @ []) 1 1 + 1 = length ?h"
    using len_size_encode_connect [OF wf rem] by (simp add: enc)
  note parse = parsePackage_header [OF len connect_flags_less [OF wf], folded enc]
  show ?thesis
  proof (cases "user_password p")
    case None
    then show ?thesis
      using parse connect_flags_password [OF wf] by simp
  next
    case (Some w)
    have k: "(if 196 \<le> connect_flags p then 5 else 3) = length ?fs" and w: "last ?fs = w"
      using length_connect_fields [OF wf Some] connect_flags_will [OF wf] Some by auto
    have "\<forall>v\<in>set ?fs. length v < 65536 \<and> len_ok (length v)" "?fs \<noteq> []"
      using lens wf by (auto simp: list_all_iff wf_connect_def connect_fields_def)
    from skip_fields_fields [OF this(2,1), of 0 _ "?h @ ?vh" "[]" None]
      fields_last [OF this(2), of "?h @ ?vh" "[]"]
    show ?thesis
      using parse connect_flags_password [OF wf] Some k w by (simp add: enc)
  qed
qed

text \<open>
  C4. For every well-formed CONNECT packet whose length bytes the parser reads correctly,
  \<open>parsePackage\<close> returns exactly the password of the packet, and when there is none it
  reports it and returns the empty string.
\<close>

theorem parsePackage_encode:
  assumes "wf_connect p" and "rem_ok (length (connect_body p))"
    and "list_all (\<lambda>v. len_ok (length v)) (connect_fields p)"
  shows "parsePackage (encode_connect p) =
    (case user_password p of
       None \<Rightarrow> Inr ([''MQTT username or password not provided''], [])
     | Some w \<Rightarrow> Inr ([], w))"
  using assms by (rule parsePackage_encode_eq)

definition sample_connect :: mqtt_connect where
  "sample_connect = \<lparr> header_flags = 0, keep_alive = 60, client_id = ''dev-1'',
     will = Some (''bye'', ''gone''), will_qos = 1, will_retain = False, clean_session = True,
     user_name = Some ''thing'', user_password = Some ''secret'' \<rparr>"

lemma sample_connect_ok:
  "wf_connect sample_connect" "rem_ok (length (connect_body sample_connect))"
  "list_all (\<lambda>v. len_ok (length v)) (connect_fields sample_connect)"
  by (simp_all add: sample_connect_def wf_connect_def connect_fields_def connect_body_def field_def
      rem_ok.simps len_ok_def)

theorem parsePackage_encode_witness:
  "parsePackage (encode_connect sample_connect) = Inr ([], ''secret'')"
  using parsePackage_encode [OF sample_connect_ok] by (simp add: sample_connect_def)

section \<open>Two readings of one packet\<close>

text \<open>A packet whose client identifier is 258 bytes long (high byte 1, low byte 2): the parser
  skips 18 bytes of it only and takes the rest of the identifier for the fields that follow.\<close>

definition smuggle_id :: "string \<Rightarrow> string" where
  "smuggle_id a = replicate 18 CHR ''x'' @ field [] @ field a @ replicate (236 - length a) CHR ''x''"

definition smuggle_connect :: "string \<Rightarrow> string \<Rightarrow> mqtt_connect" where
  "smuggle_connect a b = \<lparr> header_flags = 0, keep_alive = 0, client_id = smuggle_id a,
     will = None, will_qos = 0, will_retain = False, clean_session = True,
     user_name = Some (if (274 + length b) mod 128 = 0 then ''u'' else []),
     user_password = Some b \<rparr>"

lemma length_smuggle_id: "length a \<le> 236 \<Longrightarrow> length (smuggle_id a) = 258"
  by (simp add: smuggle_id_def)

lemma length_smuggle_body:
  "length a \<le> 236 \<Longrightarrow> length (connect_body (smuggle_connect a b)) =
     274 + length b + (if (274 + length b) mod 128 = 0 then 1 else 0)"
  by (simp add: connect_body_eq connect_fields_def smuggle_connect_def length_smuggle_id)

lemma wf_smuggle_connect:
  "length a \<le> 236 \<Longrightarrow> length b \<le> 1000 \<Longrightarrow> wf_connect (smuggle_connect a b)"
  unfolding wf_connect_def length_smuggle_body
  by (auto simp: connect_fields_def smuggle_connect_def length_smuggle_id)

lemma rem_ok_smuggle:
  assumes "length a \<le> 236" "length b \<le> 1000"
  shows "rem_ok (length (connect_body (smuggle_connect a b)))"
proof -
  have "rem_ok n" if "n mod 128 \<noteq> 0" "n < 16384" for n
    using that by (simp add: rem_ok.simps [of n] rem_ok.simps [of "n div 128"] less_mult_imp_div_less)
  moreover have "length (connect_body (smuggle_connect a b)) mod 128 \<noteq> 0"
    unfolding length_smuggle_body [OF assms(1)] by presburger
  ultimately show ?thesis
    using assms by (simp add: length_smuggle_body)
qed

lemma skip_fields_smuggle:
  assumes "length a \<le> 236"
  shows "skip_fields (pre @ field (smuggle_id a) @ rest) 3 0 (Some (length pre)) None =
    Inr (Some (length pre + 24), Some (length a))"
    and "js_substring (pre @ field (smuggle_id a) @ rest) (Some (length pre + 24))
      (js_add (Some (length pre + 24)) (Some (length a))) = a"
proof -
  let ?pre = "pre @ [char_of (1::nat), char_of (2::nat)] @ replicate 18 CHR ''x''"
  let ?rest = "replicate (236 - length a) CHR ''x'' @ rest"
  have data: "pre @ field (smuggle_id a) @ rest = ?pre @ concat (map field [[], a]) @ ?rest"
    using length_smuggle_id [OF assms] unfolding field_def [of "smuggle_id a"]
    by (simp add: smuggle_id_def)
  have ok: "\<forall>v\<in>set [[], a]. length v < 65536 \<and> len_ok (length v)"
    using assms by (simp add: len_ok_def)
  have "skip_fields (pre @ field (smuggle_id a) @ rest) 3 0 (Some (length pre)) None =
      skip_fields (pre @ field (smuggle_id a) @ rest) 3 1 (Some (20 + length pre)) (Some 18)"
    using skip_fields_step [of 0 3 "smuggle_id a" pre rest None] length_smuggle_id [OF assms]
      calcLen_bytes [of 2 1]
    by simp
  also have "\<dots> = Inr (Some (length pre + 24), Some (length a))"
    using skip_fields_fields [OF _ ok, of 1 3 ?pre ?rest "Some 18"] unfolding data
    by (simp add: add.commute [of 20] add.commute [of 24])
  finally show "skip_fields (pre @ field (smuggle_id a) @ rest) 3 0 (Some (length pre)) None =
      Inr (Some (length pre + 24), Some (length a))" .
  show "js_substring (pre @ field (smuggle_id a) @ rest) (Some (length pre + 24))
      (js_add (Some (length pre + 24)) (Some (length a))) = a"
    using fields_last [of "[[], a]" ?pre ?rest] unfolding data
    by (simp add: add.commute [of 24])
qed

lemma parsePackage_smuggle:
  assumes "length a \<le> 236" and "length b \<le> 1000"
  shows "wf_connect (smuggle_connect a b) \<and> user_password (smuggle_connect a b) = Some b \<and>
    parsePackage (encode_connect (smuggle_connect a b)) = Inr ([], a)"
proof -
  let ?p = "smuggle_connect a b"
  let ?h = "char_of (16 + header_flags ?p) # remaining_length (length (connect_body ?p))"
  let ?vh = "variable_header (connect_flags ?p) (keep_alive ?p)"
  let ?rest = "concat (map field (tl (connect_fields ?p)))"
  have wf: "wf_connect ?p" and rem: "rem_ok (length (connect_body ?p))"
    using assms wf_smuggle_connect rem_ok_smuggle by auto
  have enc: "encode_connect ?p = ?h @ ?vh @ field (smuggle_id a) @ ?rest"
    by (simp add: encode_connect_def connect_body_eq connect_fields_def smuggle_connect_def)
  have len: "len_size_loop (?h @ ?vh @ field (smuggle_id a) @ ?rest) 1 1 + 1 = length ?h"
    using len_size_encode_connect [OF wf rem] by (simp add: enc)
  have flags: "connect_flags ?p = 194"
    by (simp add: connect_flags_def smuggle_connect_def)
  from parsePackage_header [OF len connect_flags_less [OF wf], folded enc]
    skip_fields_smuggle [OF assms(1), of "?h @ ?vh" ?rest]
  have "parsePackage (encode_connect ?p) = Inr ([], a)"
    using flags by (simp add: enc)
  with wf show ?thesis
    by (simp add: smuggle_connect_def)
qed

text \<open>
  The parser and an MQTT broker can disagree on the password: for any two passwords \<open>a\<close> (of at
  most 236 bytes) and \<open>b\<close> (of at most 1000) there is a well-formed CONNECT packet whose password
  is \<open>b\<close> while \<open>parsePackage\<close> returns \<open>a\<close>.
\<close>

theorem parsePackage_password_confusion:
  assumes "length a \<le> 236" and "length b \<le> 1000"
  shows "\<exists>p. wf_connect p \<and> user_password p = Some b \<and> parsePackage (encode_connect p) = Inr ([], a)"
  using parsePackage_smuggle [OF assms] by blast

theorem parsePackage_password_confusion_witness:
  "\<exists>p. wf_connect p \<and> user_password p = Some ''theirs'' \<and>
     parsePackage (encode_connect p) = Inr ([], ''mine'')"
  using parsePackage_password_confusion [of "''mine''" "''theirs''"] by simp

end
