(* ===== verification/Nginx_Auth.thy ===== *)
theory Nginx_Auth
  imports Mqtt_Connect
begin

text \<open>
  The rest of \<open>docker/ssl/authorization.js\<close>, the script NGINX runs for mutual TLS: \<open>parseCert\<close>
  (lines 164 to 176), \<open>setKey\<close> for HTTPS and secure WebSocket (lines 130 to 154) and
  \<open>authenticate\<close> for MQTT over TLS (lines 4 to 42). The script's global \<open>clientKey\<close> is a field of
  the state; each session and each request starts with a fresh copy of the script's globals.

  \<open>authenticate\<close> is a small state machine: the call itself, and the \<open>upload\<close> events that follow,
  each with a chunk of the client's bytes.
\<close>

section \<open>The certificate's subject\<close>

text \<open>The loop of \<open>parseCert\<close>; \<open>pair[1]\<close> is \<open>undefined\<close> when there is no \<open>=\<close>.\<close>

fun cert_loop :: "string \<Rightarrow> string list \<Rightarrow> string option" where
  "cert_loop key [] = Some []"
| "cert_loop key (p # ps) =
     (let pair = js_split CHR ''='' p
      in if js_toUpperCase (pair ! 0) = key then js_nth pair 1 else cert_loop key ps)"

definition parseCert :: "string option \<Rightarrow> string \<Rightarrow> string option js" where
  "parseCert cert key =
     (case cert of
        None \<Rightarrow> Inl TypeError
      | Some c \<Rightarrow> if c \<noteq> [] then Inr (cert_loop key (js_split CHR '','' c)) else Inr (Some []))"

section \<open>HTTPS and WSS\<close>

record http_request =
  req_s_dn :: "string option"
  req_authorization :: "string option"
  req_uri :: string
  req_args :: "(string \<times> string) list"

text \<open>The \<open>for (a in r.args)\<close> loop of \<open>setKey\<close> over the names of the arguments.\<close>

fun args_loop :: "(string \<times> string) list \<Rightarrow> string option \<Rightarrow> string list \<Rightarrow> bool" where
  "args_loop args clientKey [] = False"
| "args_loop args clientKey (a # as) =
     (if a = ''authorization'' \<and> map_of args a = clientKey then True
      else args_loop args clientKey as)"

definition js_nonempty :: "string option \<Rightarrow> bool" where
  "js_nonempty x = (case x of None \<Rightarrow> False | Some s \<Rightarrow> s \<noteq> [])"

text \<open>\<open>setKey(r)\<close>: the new \<open>clientKey\<close>, the messages to \<open>r.error\<close> and the returned value.\<close>

definition setKey :: "string option \<Rightarrow> http_request \<Rightarrow> (string option \<times> string list \<times> string option) js" where
  "setKey clientKey r =
     (case (if clientKey = Some [] then parseCert (req_s_dn r) ''CN'' else Inr clientKey) of
        Inl e \<Rightarrow> Inl e
      | Inr clientKey \<Rightarrow>
          (let auth = req_authorization r in
           if js_nonempty auth \<and> auth \<noteq> clientKey
           then Inr (clientKey, [''Authorization header does not match certificate''], Some [])
           else if prefix ''/ws'' (req_uri r) \<and> \<not> js_nonempty auth
           then (if args_loop (req_args r) clientKey (map fst (req_args r))
                 then Inr (clientKey, [], clientKey)
                 else Inr (clientKey, [''Authorization param does not match certificate''], Some []))
           else Inr (clientKey, [], clientKey)))"

section \<open>MQTT over TLS\<close>

datatype verdict = Pending | Allowed | Denied | Crashed js_error

record stream_session =
  ssl_client_s_dn :: "string option"
  ssl_client_verify :: "string option"
  clientKey :: "string option"
  upload_on :: bool
  verdict :: verdict
  error_log :: "string list"

text \<open>The session when \<open>authenticate\<close> is called, with the variables that NGINX sets.\<close>

definition new_session :: "string option \<Rightarrow> string option \<Rightarrow> stream_session" where
  "new_session dn verify = \<lparr> ssl_client_s_dn = dn, ssl_client_verify = verify, clientKey = Some [],
     upload_on = False, verdict = Pending, error_log = [] \<rparr>"

definition authenticate :: "stream_session \<Rightarrow> stream_session" where
  "authenticate s =
     (if \<not> js_nonempty (ssl_client_s_dn s) \<or> \<not> js_nonempty (ssl_client_verify s)
         \<or> ssl_client_verify s \<noteq> Some ''SUCCESS''
      then s\<lparr>verdict := Denied\<rparr>
      else s\<lparr>upload_on := True\<rparr>)"

text \<open>The callback of the \<open>upload\<close> event.\<close>

definition on_upload :: "string \<Rightarrow> stream_session \<Rightarrow> stream_session" where
  "on_upload data s =
     (if data = [] then s
      else (let packet_type_flags_byte = codePointAt data (Some 0) in
        if js_lt packet_type_flags_byte 16 \<or> js_ge packet_type_flags_byte 32
        then s\<lparr>upload_on := False, verdict := Allowed\<rparr>
        else (case (if clientKey s = Some [] then parseCert (ssl_client_s_dn s) ''CN''
                    else Inr (clientKey s)) of
          Inl e \<Rightarrow> s\<lparr>verdict := Crashed e\<rparr>
        | Inr key \<Rightarrow>
            (let s = s\<lparr>clientKey := key\<rparr> in
             case parsePackage data of
               Inl e \<Rightarrow> s\<lparr>verdict := Crashed e\<rparr>
             | Inr (errs, pass) \<Rightarrow>
                 (let s = s\<lparr>error_log := error_log s @ errs\<rparr> in
                  case clientKey s of
                    None \<Rightarrow> s\<lparr>verdict := Crashed TypeError\<rparr>
                  | Some k \<Rightarrow>
                      if k = [] \<or> pass \<noteq> k
                      then s\<lparr>error_log := error_log s
                               @ [''Cert CN ('' @ k @ '') does not match client password''],
                             upload_on := False, verdict := Denied\<rparr>
                      else s\<lparr>upload_on := False, verdict := Allowed\<rparr>)))))"

text \<open>An event reaches the callback while it is registered and the session is undecided.\<close>

definition upload :: "string \<Rightarrow> stream_session \<Rightarrow> stream_session" where
  "upload data s = (if upload_on s \<and> verdict s = Pending then on_upload data s else s)"

definition run_session :: "string option \<Rightarrow> string option \<Rightarrow> string list \<Rightarrow> stream_session" where
  "run_session dn verify chunks = fold upload chunks (authenticate (new_session dn verify))"

section \<open>What parseCert finds\<close>

text \<open>A subject in the form of RFC 2253: attributes and values, separated by commas.\<close>

definition dn_text :: "(string \<times> string) list \<Rightarrow> string" where
  "dn_text attrs = js_join CHR '','' (map (\<lambda>(a, v). a @ CHR ''='' # v) attrs)"

lemma js_split_pair: "CHR ''='' \<notin> set a \<Longrightarrow>
  js_split CHR ''='' (a @ CHR ''='' # v) = a # js_split CHR ''='' v"
  by simp

lemma cert_loop_attrs:
  "\<forall>(a, v)\<in>set attrs. CHR ''='' \<notin> set a \<Longrightarrow>
   cert_loop key (map (\<lambda>(a, v). a @ CHR ''='' # v) attrs) =
     (case find (\<lambda>(a, v). js_toUpperCase a = key) attrs of
        None \<Rightarrow> Some [] | Some (a, v) \<Rightarrow> Some (takeWhile (\<lambda>c. c \<noteq> CHR ''='') v))"
proof (induction attrs)
  case (Cons x attrs)
  obtain a v where x: "x = (a, v)"
    by (cases x)
  with Cons show ?case
    by (simp add: js_split_pair js_nth_def js_split_first Let_def del: js_split_append_sep)
qed simp



section \<open>What setKey lets through\<close>

lemma args_loop_iff:
  "args_loop args ck as \<longleftrightarrow> ''authorization'' \<in> set as \<and> map_of args ''authorization'' = ck"
  by (induction as) auto

text \<open>The client presents the key: in the header when there is one, and otherwise, for WebSocket
  requests, in the \<open>authorization\<close> argument.\<close>

definition key_presented :: "string \<Rightarrow> http_request \<Rightarrow> bool" where
  "key_presented cn r \<longleftrightarrow>
     (if js_nonempty (req_authorization r) then req_authorization r = Some cn
      else (prefix ''/ws'' (req_uri r) \<longrightarrow> map_of (req_args r) ''authorization'' = Some cn))"

text \<open>
  C39. For a certificate with a common name, \<open>setKey\<close> returns that name when the request presents
  it, and the empty string together with one error message when it does not.
\<close>

theorem setKey_key_presented:
  assumes "parseCert (req_s_dn r) ''CN'' = Inr (Some cn)"
  shows "\<exists>errs. setKey (Some []) r = Inr (Some cn, errs, Some (if key_presented cn r then cn else []))
    \<and> length errs = (if key_presented cn r then 0 else 1)"
proof -
  have "map_of (req_args r) ''authorization'' = Some cn \<Longrightarrow>
      ''authorization'' \<in> set (map fst (req_args r))"
    by (force dest: map_of_SomeD)
  then have "args_loop (req_args r) (Some cn) (map fst (req_args r)) \<longleftrightarrow>
      map_of (req_args r) ''authorization'' = Some cn"
    unfolding args_loop_iff by blast
  with assms show ?thesis
    by (auto simp: setKey_def Let_def key_presented_def)
qed

definition sample_request :: http_request where
  "sample_request = \<lparr> req_s_dn = Some ''CN=key-1'', req_authorization = None,
     req_uri = ''/ws/channels/1/messages'', req_args = [(''authorization'', ''key-1'')] \<rparr>"

theorem setKey_key_presented_witness:
  "\<exists>errs. setKey (Some []) sample_request = Inr (Some ''key-1'', errs, Some ''key-1'')
     \<and> length errs = 0"
proof -
  have "parseCert (req_s_dn sample_request) ''CN'' = Inr (Some ''key-1'')"
    by (simp add: sample_request_def parseCert_def js_nth_def js_toUpperCase_def upper_char_def)
  moreover have "key_presented ''key-1'' sample_request"
    by (simp add: sample_request_def key_presented_def js_nonempty_def)
  ultimately show ?thesis
    using setKey_key_presented [of sample_request "''key-1''"] by simp
qed

section \<open>What authenticate lets through\<close>

definition is_connect :: "string \<Rightarrow> bool" where
  "is_connect d \<longleftrightarrow> (case d of [] \<Rightarrow> False | c # _ \<Rightarrow> 16 \<le> (of_char c :: nat) \<and> (of_char c :: nat) < 32)"

lemma on_upload_decides: "d \<noteq> [] \<Longrightarrow> verdict (on_upload d s) \<noteq> Pending"
  by (auto simp: on_upload_def Let_def split: sum.splits option.splits prod.splits)

lemma upload_decided: "verdict s \<noteq> Pending \<Longrightarrow> fold upload ds s = s"
  by (induction ds) (auto simp: upload_def)

lemma fold_upload:
  "upload_on s \<Longrightarrow> verdict s = Pending \<Longrightarrow>
   fold upload ds s = (case find (\<lambda>d. d \<noteq> []) ds of None \<Rightarrow> s | Some d \<Rightarrow> on_upload d s)"
proof (induction ds)
  case (Cons d ds)
  show ?case
  proof (cases "d = []")
    case True
    with Cons show ?thesis
      by (simp add: upload_def on_upload_def)
  next
    case False
    moreover have "upload d s = on_upload d s"
      using Cons.prems by (simp add: upload_def)
    ultimately show ?thesis
      by (simp add: upload_decided [OF on_upload_decides])
  qed
qed simp

lemma on_upload_Allowed:
  assumes "d \<noteq> []" and "clientKey s = Some []" and "verdict s = Pending"
  shows "verdict (on_upload d s) = Allowed \<longleftrightarrow>
    (is_connect d \<longrightarrow> (\<exists>k errs. k \<noteq> [] \<and> parseCert (ssl_client_s_dn s) ''CN'' = Inr (Some k)
       \<and> parsePackage d = Inr (errs, k)))"
proof -
  obtain c r where d: "d = c # r"
    using assms(1) by (cases d) auto
  have "codePointAt d (Some 0) = Some (of_char c)"
    by (simp add: d codePointAt_def js_nth_def)
  then show ?thesis
    using assms d
    by (auto simp: on_upload_def Let_def is_connect_def split: sum.splits option.splits)
qed

lemma new_session_sel [simp]:
  "verdict (new_session dn v) = Pending" "clientKey (new_session dn v) = Some []"
  "ssl_client_s_dn (new_session dn v) = dn" "ssl_client_verify (new_session dn v) = v"
  by (simp_all add: new_session_def)

lemma run_session_eq:
  "run_session dn verify ds =
     (if js_nonempty dn \<and> verify = Some ''SUCCESS'' then
        (case find (\<lambda>d. d \<noteq> []) ds of
           None \<Rightarrow> (new_session dn verify)\<lparr>upload_on := True\<rparr>
         | Some d \<Rightarrow> on_upload d ((new_session dn verify)\<lparr>upload_on := True\<rparr>))
      else (new_session dn verify)\<lparr>verdict := Denied\<rparr>)"
proof -
  have "authenticate (new_session dn verify) =
      (if js_nonempty dn \<and> verify = Some ''SUCCESS'' then (new_session dn verify)\<lparr>upload_on := True\<rparr>
       else (new_session dn verify)\<lparr>verdict := Denied\<rparr>)"
    by (auto simp: authenticate_def js_nonempty_def)
  then show ?thesis
    by (auto simp: run_session_def fold_upload upload_decided)
qed

lemma run_session_allowed:
  "verdict (run_session dn verify ds) = Allowed \<longleftrightarrow>
     js_nonempty dn \<and> verify = Some ''SUCCESS'' \<and>
     (\<exists>d. find (\<lambda>d. d \<noteq> []) ds = Some d \<and>
       (\<not> is_connect d \<or>
        (\<exists>k errs. k \<noteq> [] \<and> parseCert dn ''CN'' = Inr (Some k) \<and> parsePackage d = Inr (errs, k))))"
proof -
  let ?s = "(new_session dn verify)\<lparr>upload_on := True\<rparr>"
  have s: "clientKey ?s = Some []" "verdict ?s = Pending" "ssl_client_s_dn ?s = dn"
    by (simp_all add: new_session_def)
  show ?thesis
  proof (cases "find (\<lambda>d. d \<noteq> []) ds")
    case (Some d)
    then have "d \<noteq> []"
      by (auto simp: find_Some_iff)
    from on_upload_Allowed [OF this s(1,2)] s(3) Some show ?thesis
      by (auto simp: run_session_eq)
  qed (simp add: run_session_eq new_session_def)
qed

text \<open>
  C3. A session is let through exactly when the certificate was verified and the first bytes the
  client sends are either not a CONNECT packet or one whose password, as \<open>parsePackage\<close> reads
  it, is the non-empty common name of the certificate. The bytes that come later do not matter.
\<close>

theorem run_session_Allowed_iff:
  "verdict (run_session dn verify ds) = Allowed \<longleftrightarrow>
     js_nonempty dn \<and> verify = Some ''SUCCESS'' \<and>
     (\<exists>d. find (\<lambda>d. d \<noteq> []) ds = Some d \<and>
       (\<not> is_connect d \<or>
        (\<exists>k errs. k \<noteq> [] \<and> parseCert dn ''CN'' = Inr (Some k) \<and> parsePackage d = Inr (errs, k))))"
  by (rule run_session_allowed)

theorem run_session_Allowed_iff_witness:
  "verdict (run_session (Some ''CN=k1'') (Some ''SUCCESS'') [[], ''0'']) = Allowed \<and>
   verdict (run_session (Some ''CN=k1'') (Some ''FAILED'') [[], ''0'']) \<noteq> Allowed"
  using run_session_Allowed_iff [of "Some ''CN=k1''" "Some ''SUCCESS''" "[[], ''0'']"]
    run_session_Allowed_iff [of "Some ''CN=k1''" "Some ''FAILED''" "[[], ''0'']"]
  by (simp add: js_nonempty_def is_connect_def codePointAt_def js_nth_def)

text \<open>
  C14. A client with a verified certificate of common name \<open>k\<close> that starts with a well-formed CONNECT
  packet is let through if the password of the packet is \<open>k\<close> and turned away otherwise,
  provided the length bytes of the packet are ones that the parser reads correctly.
\<close>

theorem run_session_connect:
  assumes cert: "parseCert (Some dn) ''CN'' = Inr (Some k)" and k: "k \<noteq> []" and dn: "dn \<noteq> []"
    and wf: "wf_connect p" and rem: "rem_ok (length (connect_body p))"
    and lens: "list_all (\<lambda>v. len_ok (length v)) (connect_fields p)"
  shows "verdict (run_session (Some dn) (Some ''SUCCESS'') (encode_connect p # ds)) =
    (if user_password p = Some k then Allowed else Denied)"
proof -
  have "codePointAt (encode_connect p) (Some 0) = Some (16 + header_flags p)" "encode_connect p \<noteq> []"
    using wf by (auto simp: encode_connect_def codePointAt_def js_nth_def wf_connect_def)
  then show ?thesis
    using cert k dn wf parsePackage_encode_eq [OF wf rem lens]
    by (auto simp: run_session_eq js_nonempty_def on_upload_def new_session_def Let_def wf_connect_def
        split: option.splits)
qed

theorem run_session_connect_witness:
  "verdict (run_session (Some ''CN=secret'') (Some ''SUCCESS'') [encode_connect sample_connect]) = Allowed"
proof -
  have "parseCert (Some ''CN=secret'') ''CN'' = Inr (Some ''secret'')"
    by code_simp
  then show ?thesis
    using run_session_connect [OF _ _ _ sample_connect_ok, of "''CN=secret''" "''secret''" "[]"]
    by (simp add: sample_connect_def)
qed

text \<open>
  C31. The check can be bypassed: whoever holds a verified certificate for the key \<open>a\<close> is let through
  with a CONNECT packet of the right layout that presents any other key \<open>b\<close> to the broker. (The packet hides
  lengths in its client identifier, which has NUL bytes there; the standard forbids them, but the script does not look at
  them.)
\<close>

theorem run_session_bypass:
  assumes "parseCert (Some dn) ''CN'' = Inr (Some a)" and "dn \<noteq> []" and "a \<noteq> []"
    and "length a \<le> 236" and "length b \<le> 1000"
  shows "\<exists>p. wf_connect p \<and> user_password p = Some b \<and>
    verdict (run_session (Some dn) (Some ''SUCCESS'') [encode_connect p]) = Allowed"
proof (intro exI conjI)
  let ?p = "smuggle_connect a b"
  note c = parsePackage_smuggle [OF assms(4,5)]
  then show "wf_connect ?p" and "user_password ?p = Some b"
    by blast+
  have "encode_connect ?p \<noteq> []"
    by (simp add: encode_connect_def)
  with c assms show "verdict (run_session (Some dn) (Some ''SUCCESS'') [encode_connect ?p]) = Allowed"
    by (auto simp: run_session_eq js_nonempty_def on_upload_Allowed new_session_def)
qed

theorem run_session_bypass_witness:
  "\<exists>p. wf_connect p \<and> user_password p = Some ''theirs'' \<and>
     verdict (run_session (Some ''CN=mine'') (Some ''SUCCESS'') [encode_connect p]) = Allowed"
proof -
  have "parseCert (Some ''CN=mine'') ''CN'' = Inr (Some ''mine'')"
    by code_simp
  then show ?thesis
    using run_session_bypass [of "''CN=mine''" "''mine''" "''theirs''"] by simp
qed

end
