(* ===== verification/Nginx_Fragments.thy ===== *)
theory Nginx_Fragments
  imports Nginx_Auth
begin

text \<open>
  A TCP stream delivers a packet in pieces of any size, and \<open>authenticate\<close> of
  \<open>docker/ssl/authorization.js\<close> looks at the first piece only. This theory says what
  \<open>parsePackage\<close> makes of a piece of its input, for any input, and for which packets there is a
  way to cut them that gets them through. It also says when a session is decided at all.
\<close>

section \<open>Reading a piece\<close>

lemma codePointAt_prefix:
  assumes "prefix d f" "codePointAt d i = Some n"
  shows "codePointAt f i = Some n"
proof -
  obtain r where "f = d @ r"
    using assms(1) by (rule prefixE)
  then show ?thesis
    using assms(2) by (auto simp: codePointAt_def js_nth_def nth_append split: if_splits)
qed

lemma codePointAt_None: "codePointAt d (Some i) = None \<longleftrightarrow> length d \<le> i"
  by (simp add: codePointAt_def js_nth_def)

lemma len_size_loop_ge: "n \<le> len_size_loop d r n"
proof (induction d r n rule: len_size_loop.induct)
  case (1 d r n)
  then show ?case
    by (subst len_size_loop.simps) (auto dest: Suc_leD)
qed

lemma len_size_loop_prefix:
  assumes "prefix d f"
  shows "len_size_loop d r n = len_size_loop f r n \<or> length d \<le> 4"
  using assms
proof (induction d r n rule: len_size_loop.induct)
  case (1 d r n)
  show ?case
  proof (cases "r < 5 \<and> codePointAt d (Some r) = None")
    case True
    then show ?thesis
      by (simp add: codePointAt_None)
  next
    case False
    then have "r < 5 \<Longrightarrow> codePointAt f (Some r) = codePointAt d (Some r)"
      using codePointAt_prefix [OF 1(2), of "Some r"] by (cases "codePointAt d (Some r)") auto
    then show ?thesis
      using 1 by (simp add: len_size_loop.simps [of d r] len_size_loop.simps [of f r])
  qed
qed

lemma skip_fields_prefix:
  assumes "prefix d f"
  shows "skip_fields d k i s l = Inl TypeError \<or> skip_fields d k i s l = skip_fields f k i s l"
  using assms
proof (induction d k i s l rule: skip_fields.induct)
  case (1 d k i s l)
  show ?case
  proof (cases "i < k")
    case True
    show ?thesis
    proof (cases "codePointAt d s = None \<or> codePointAt d (js_add s (Some 1)) = None")
      case True
      then show ?thesis
        using \<open>i < k\<close> by (auto simp: skip_fields.simps [of d k i] split: option.splits)
    next
      case False
      then obtain msb lsb where "codePointAt d s = Some msb" "codePointAt d (js_add s (Some 1)) = Some lsb"
        by auto
      with codePointAt_prefix [OF 1(2)] show ?thesis
        using True 1 by (simp add: skip_fields.simps [of d k i] skip_fields.simps [of f k i] Let_def)
    qed
  qed (simp add: skip_fields.simps [of _ k i])
qed

lemma take_drop_prefix: "prefix d f \<Longrightarrow> prefix (take m (drop a d)) (take m (drop a f))"
  by (auto simp: prefix_def)

lemma parsePackage_short:
  assumes "length d \<le> 1 + len_size_loop d 1 1 + 7"
  shows "parsePackage d = Inl TypeError"
proof -
  let ?pos = "1 + len_size_loop d 1 1 + 2 + 4 + 1"
  have "codePointAt d (Some ?pos) = None" "codePointAt d (Some (?pos + 1 + 2)) = None"
    using assms by (simp_all add: codePointAt_None)
  then show ?thesis
    by (simp add: parsePackage_def Let_def skip_fields.simps [of d 3 0])
qed

lemma parsePackage_flags:
  assumes "codePointAt d (Some (1 + len_size_loop d 1 1 + 2 + 4 + 1)) = Some flags" "\<not> flags < 192"
    and "k = (if 196 \<le> flags then 5 else 3)"
  shows "parsePackage d =
    (case skip_fields d k 0 (Some (1 + len_size_loop d 1 1 + 2 + 4 + 1 + 1 + 2)) None of
       Inl e \<Rightarrow> Inl e
     | Inr (shift, len) \<Rightarrow> Inr ([], js_substring d shift (js_add shift len)))"
  using assms(1,2) by (simp add: parsePackage_def Let_def assms(3))

text \<open>For any data, a piece of it makes the parser throw, or gives it a piece of the password that it
  reads from the whole.\<close>

lemma parsePackage_prefix:
  assumes "prefix d f"
  shows "parsePackage d = Inl TypeError \<or>
    (\<exists>errs w v. parsePackage f = Inr (errs, w) \<and> parsePackage d = Inr (errs, v) \<and> prefix v w)"
proof (cases "length d \<le> 1 + len_size_loop d 1 1 + 7")
  case True
  then show ?thesis
    by (simp add: parsePackage_short)
next
  case False
  then have "\<not> length d \<le> 4"
    using len_size_loop_ge [of 1 d 1] by linarith
  then have size: "len_size_loop f 1 1 = len_size_loop d 1 1"
    using len_size_loop_prefix [OF assms, of 1 1] by simp
  let ?pos = "1 + len_size_loop d 1 1 + 2 + 4 + 1"
  obtain flags where flags: "codePointAt d (Some ?pos) = Some flags" "codePointAt f (Some ?pos) = Some flags"
    using False codePointAt_prefix [OF assms] codePointAt_None [of d ?pos]
    by (cases "codePointAt d (Some ?pos)") auto
  define k :: nat where "k = (if 196 \<le> flags then 5 else 3)"
  have sub: "prefix (js_substring d a b) (js_substring f a b)" for a b
    using take_drop_prefix [OF assms] by (simp add: js_substring_def Let_def)
  show ?thesis
  proof (cases "flags < 192")
    case True
    then show ?thesis
      using flags size by (simp add: parsePackage_def Let_def)
  next
    case False
    note d = parsePackage_flags [OF flags(1) False k_def]
      and f = parsePackage_flags [of f, unfolded size, OF flags(2) False k_def]
    note skip = skip_fields_prefix [OF assms, of k 0 "Some (?pos + 1 + 2)" None]
    show ?thesis
    proof (cases "skip_fields d k 0 (Some (?pos + 1 + 2)) None")
      case (Inl e)
      then show ?thesis
        unfolding d by (cases e) simp
    next
      case (Inr r)
      with skip have "skip_fields f k 0 (Some (?pos + 1 + 2)) None = Inr r"
        by simp
      with Inr sub show ?thesis
        unfolding d f by (cases r) simp
    qed
  qed
qed

section \<open>Cutting a packet before the end of its password\<close>

lemma skip_fields_shift:
  "skip_fields f k i (Some s) l = Inr (sh, len) \<Longrightarrow> i < k \<Longrightarrow> \<exists>a. sh = Some a \<and> s + 2 \<le> a"
proof (induction "k - i" arbitrary: i s l)
  case (Suc j)
  obtain m b where mb: "codePointAt f (Some s) = Some m" "codePointAt f (Some (s + 1)) = Some b"
    using Suc.prems by (auto simp: skip_fields.simps [of f k i] split: option.splits)
  have "b < 256"
    using codePointAt_byte [OF mb(2)] .
  then obtain n where n: "calcLen (toString16 m) (toString16 b) = Some n"
    by (simp add: calcLen_bytes)
  let ?s = "if i \<noteq> k - 1 then s + 2 + n else s + 2"
  have step: "skip_fields f k (i + 1) (Some ?s) (Some n) = Inr (sh, len)"
    using Suc.prems mb n by (simp add: skip_fields.simps [of f k i] Let_def split: if_splits)
  show ?case
  proof (cases "i + 1 < k")
    case True
    have "j = k - (i + 1)"
      using Suc.hyps(2) by simp
    from Suc.hyps(1) [OF this step True] show ?thesis
      by (auto split: if_splits)
  next
    case False
    then have "i + 1 = k"
      using Suc.prems(2) by simp
    then show ?thesis
      using step by (auto simp: skip_fields.simps [of f k k] split: if_splits)
  qed
qed simp

lemma skip_fields_complete:
  assumes "prefix d f"
  shows "skip_fields f k i (Some s) l = Inr (Some a, len) \<Longrightarrow> i < k \<Longrightarrow> a \<le> length d \<Longrightarrow>
    skip_fields d k i (Some s) l = Inr (Some a, len)"
proof (induction "k - i" arbitrary: i s l)
  case (Suc j)
  have "s + 2 \<le> a"
    using skip_fields_shift [OF Suc.prems(1,2)] by auto
  then have "codePointAt d (Some s) \<noteq> None" "codePointAt d (Some (s + 1)) \<noteq> None"
    using Suc.prems(3) by (simp_all add: codePointAt_None)
  then obtain m b where mb: "codePointAt d (Some s) = Some m" "codePointAt d (Some (s + 1)) = Some b"
    by auto
  note fmb = codePointAt_prefix [OF assms mb(1)] codePointAt_prefix [OF assms mb(2)]
  obtain n where n: "calcLen (toString16 m) (toString16 b) = Some n"
    using codePointAt_byte [OF mb(2)] by (simp add: calcLen_bytes)
  define t where "t = (if i \<noteq> k - 1 then s + 2 + n else s + 2)"
  have eq: "skip_fields x k i (Some s) l = skip_fields x k (i + 1) (Some t) (Some n)"
    if "codePointAt x (Some s) = Some m" "codePointAt x (Some (s + 1)) = Some b" for x
    using that Suc.prems(2) n by (simp add: skip_fields.simps [of x k i] Let_def t_def)
  have step: "skip_fields f k (i + 1) (Some t) (Some n) = Inr (Some a, len)"
    using Suc.prems(1) eq [OF fmb] by simp
  show ?case
  proof (cases "i + 1 < k")
    case True
    have "j = k - (i + 1)"
      using Suc.hyps(2) by simp
    from Suc.hyps(1) [OF this step True Suc.prems(3)] show ?thesis
      using eq [OF mb] by simp
  next
    case False
    then have "i + 1 = k"
      using Suc.prems(2) by simp
    then show ?thesis
      using step eq [OF mb] by (simp add: skip_fields.simps [of _ k k])
  qed
qed simp

text \<open>Cut inside the password, the packet has the cut password.\<close>

lemma parsePackage_cut:
  assumes wf: "wf_connect p" and rem: "rem_ok (length (connect_body p))"
    and lens: "list_all (\<lambda>v. len_ok (length v)) (connect_fields p)" and w: "user_password p = Some (k @ x)"
  shows "parsePackage (take (length (encode_connect p) - length x) (encode_connect p)) = Inr ([], k)"
proof -
  let ?h = "char_of (16 + header_flags p) # remaining_length (length (connect_body p))"
    and ?fs = "connect_fields p" and ?vh = "variable_header (connect_flags p) (keep_alive p)"
  let ?f = "encode_connect p" and ?d = "take (length (encode_connect p) - length x) (encode_connect p)"
  let ?pre = "?h @ ?vh @ concat (map field (butlast ?fs)) @
      [char_of (length (k @ x) div 256), char_of (length (k @ x) mod 256)]"
  note last = length_connect_fields [OF wf w]
  have ne: "?fs \<noteq> []"
    by (simp add: connect_fields_def)
  have fs: "?fs = butlast ?fs @ [k @ x]"
    using append_butlast_last_id [OF ne] last(2) by simp
  have f: "?f = ?pre @ k @ x"
    unfolding encode_connect_def connect_body_eq by (subst (2) fs) (simp add: field_def)
  have "take (length (a @ b @ c) - length c) (a @ b @ c) = a @ b" for a b c :: string
    by simp
  then have d: "?d = ?pre @ k"
    unfolding f .
  have pre: "prefix ?d ?f"
    by (rule take_is_prefix)
  have size_f: "len_size_loop ?f 1 1 = length (remaining_length (length (connect_body p)))"
    by (rule len_size_encode_connect [OF wf rem])
  have "\<not> length ?d \<le> 4"
    unfolding d by simp
  then have size: "len_size_loop ?d 1 1 + 1 = length ?h"
    using len_size_loop_prefix [OF pre, of 1 1] size_f by simp
  have kk: "(if 196 \<le> connect_flags p then 5 else 3) = length ?fs"
    using last connect_flags_will [OF wf] w by simp
  have "\<forall>v\<in>set ?fs. length v < 65536 \<and> len_ok (length v)"
    using lens wf by (simp add: list_all_iff wf_connect_def)
  from skip_fields_fields [OF ne this, of 0 "length ?fs" "?h @ ?vh" "[]" None]
  have "skip_fields ?f (length ?fs) 0 (Some (length ?h + 10)) None = Inr (Some (length ?pre), Some (length (k @ x)))"
    using last(2) by (simp add: encode_connect_def connect_body_eq)
  from skip_fields_complete [OF pre this] have skip:
    "skip_fields ?d (length ?fs) 0 (Some (length ?h + 10)) None = Inr (Some (length ?pre), Some (length (k @ x)))"
    using ne by (simp add: d)
  have "js_substring (a @ k) (Some (length a)) (js_add (Some (length a)) (Some (length (k @ x)))) = k" for a
    by (simp add: js_substring_def Let_def)
  then have "js_substring ?d (Some (length ?pre)) (js_add (Some (length ?pre)) (Some (length (k @ x)))) = k"
    unfolding d .
  moreover have "?d = ?h @ ?vh @ (concat (map field (butlast ?fs)) @
      [char_of (length (k @ x) div 256), char_of (length (k @ x) mod 256)] @ k)"
    unfolding d by simp
  ultimately show ?thesis
    using parsePackage_header [of ?h "connect_flags p" "keep_alive p"] size connect_flags_less [OF wf] skip kk
      connect_flags_password [OF wf] w by simp
qed

section \<open>Sessions\<close>

lemma encode_connect_pieces:
  assumes "wf_connect p" "prefix d (encode_connect p)" "d \<noteq> []"
  shows "is_connect d"
  using assms by (cases d) (auto simp: encode_connect_def is_connect_def wf_connect_def)



text \<open>
  C25. Every session is decided: a client with a verified certificate is let through, turned away or
  makes the script throw as soon as its first bytes arrive, and a client without one is turned away
  at once; no session stays open undecided after data.
\<close>

theorem run_session_decided:
  "verdict (run_session dn verify ds) = Pending \<longleftrightarrow>
     js_nonempty dn \<and> verify = Some ''SUCCESS'' \<and> set ds \<subseteq> {[]}"
proof (cases "find (\<lambda>d. d \<noteq> []) ds")
  case None
  then have "set ds \<subseteq> {[]}"
    by (auto simp: find_None_iff)
  then show ?thesis
    using None by (auto simp: run_session_eq)
next
  case (Some d)
  then have "d \<noteq> []" "d \<in> set ds"
    by (auto simp: find_Some_iff)
  then show ?thesis
    using on_upload_decides Some by (auto simp: run_session_eq)
qed

end
