(* ===== verification/Adapter_Config.thy ===== *)
theory Adapter_Config
  imports Js_Prelude
begin

text \<open>
  The configuration of the MQTT adapter \<open>mqtt/aedes/mqtt.js\<close> (lines 6 to 100): the object
  \<open>config\<close> read from the environment with the default of each field, and the options that are
  passed on to the clients (Redis, the broker, the things service, the event store).

  The environment is a partial map of variables to texts, \<open>process.argv[2]\<close> an optional text.
  The theorems say that a number given in digits is the number that the program uses, unless it is zero, and
  how the connection to the things service is secured.
\<close>

section \<open>The code\<close>

definition version :: string where
  "version = ''0.9.0''"

type_synonym environment = "string \<Rightarrow> string option"

text \<open>\<open>value || default\<close> for a text or \<open>undefined\<close>, and \<open>Number(value) || default\<close>:
  \<open>Number(undefined)\<close> is \<open>NaN\<close>.\<close>

definition js_or :: "string option \<Rightarrow> string \<Rightarrow> string" where
  "js_or v d = (case v of None \<Rightarrow> d | Some s \<Rightarrow> if s \<noteq> [] then s else d)"

definition Number_or :: "string option \<Rightarrow> int \<Rightarrow> jsnum" where
  "Number_or v d =
     (let n = (case v of None \<Rightarrow> NaN | Some s \<Rightarrow> js_Number s)
      in if jsnum_truthy n then n else Decimal d 0)"

record config =
  log_level :: string
  instance_id :: string
  event_stream :: string
  mqtt_port :: jsnum
  ws_port :: jsnum
  nats_url :: string
  redis_port :: jsnum
  redis_host :: string
  redis_pass :: string
  redis_db :: jsnum
  message_ttl :: jsnum
  es_port :: jsnum
  es_host :: string
  es_pass :: string
  es_db :: jsnum
  client_tls :: bool
  ca_certs :: string
  concurrency :: jsnum
  auth_url :: string
  schema_dir :: string

definition read_config :: "environment \<Rightarrow> string option \<Rightarrow> config" where
  "read_config env argv2 =
     \<lparr> log_level = js_or (env ''MF_MQTT_ADAPTER_LOG_LEVEL'') ''error'',
       instance_id = js_or (env ''MF_MQTT_INSTANCE_ID'') '''',
       event_stream = ''mainflux.mqtt'',
       mqtt_port = Number_or (env ''MF_MQTT_ADAPTER_PORT'') 1883,
       ws_port = Number_or (env ''MF_MQTT_ADAPTER_WS_PORT'') 8880,
       nats_url = js_or (env ''MF_NATS_URL'') ''nats://localhost:4222'',
       redis_port = Number_or (env ''MF_MQTT_ADAPTER_REDIS_PORT'') 6379,
       redis_host = js_or (env ''MF_MQTT_ADAPTER_REDIS_HOST'') ''localhost'',
       redis_pass = js_or (env ''MF_MQTT_ADAPTER_REDIS_PASS'') ''mqtt'',
       redis_db = Number_or (env ''MF_MQTT_ADAPTER_REDIS_DB'') 0,
       message_ttl = Number_or (env ''MF_MQTT_ADAPTER_MESSAGE_TTL'') 60,
       es_port = Number_or (env ''MF_MQTT_ADAPTER_ES_PORT'') 6379,
       es_host = js_or (env ''MF_MQTT_ADAPTER_ES_HOST'') ''localhost'',
       es_pass = js_or (env ''MF_MQTT_ADAPTER_ES_PASS'') ''mqtt'',
       es_db = Number_or (env ''MF_MQTT_ADAPTER_ES_DB'') 0,
       client_tls = (env ''MF_MQTT_ADAPTER_CLIENT_TLS'' = Some ''true'') \<or> False,
       ca_certs = js_or (env ''MF_MQTT_ADAPTER_CA_CERTS'') '''',
       concurrency = Number_or (env ''MF_MQTT_CONCURRENT_MESSAGES'') 100,
       auth_url = js_or (env ''MF_THINGS_URL'') ''localhost:8181'',
       schema_dir = js_or argv2 ''.'' \<rparr>"

text \<open>The options of the clients that the adapter opens: Redis (the persistence, the message queue
  and the event store), NATS, the broker, and the things service. The life time of a stored packet
  is a function of the packet that ignores it.\<close>

record redis_options =
  r_port :: jsnum
  r_host :: string
  r_password :: string
  r_db :: jsnum

record nats_options =
  n_servers :: "string list"
  n_preserveBuffers :: bool

record 'p aedes_options =
  a_id :: "string option"
  a_mq :: redis_options
  a_persistence :: redis_options
  a_packetTTL :: "'p \<Rightarrow> jsnum"
  a_concurrency :: jsnum

datatype credentials = createSsl string | createInsecure

record 'p adapter_clients =
  cl_protos :: "string \<times> string"
  cl_nats :: nats_options
  cl_aedes :: "'p aedes_options"
  cl_things :: "string \<times> credentials"
  cl_esclient :: redis_options
  cl_listen :: "jsnum \<times> jsnum"

definition redis_config :: "config \<Rightarrow> redis_options" where
  "redis_config c =
     \<lparr> r_port = redis_port c, r_host = redis_host c, r_password = redis_pass c, r_db = redis_db c \<rparr>"

definition things_credentials :: "config \<Rightarrow> credentials" where
  "things_credentials c = (if client_tls c then createSsl (ca_certs c) else createInsecure)"

definition wire :: "config \<Rightarrow> 'p adapter_clients" where
  "wire c =
     \<lparr> cl_protos = (schema_dir c @ ''/authn.proto'', schema_dir c @ ''/message.proto''),
       cl_nats = \<lparr> n_servers = [nats_url c], n_preserveBuffers = True \<rparr>,
       cl_aedes = \<lparr> a_id = (if instance_id c \<noteq> [] then Some (instance_id c) else None),
                    a_mq = redis_config c, a_persistence = redis_config c,
                    a_packetTTL = (\<lambda>_. message_ttl c), a_concurrency = concurrency c \<rparr>,
       cl_things = (auth_url c, things_credentials c),
       cl_esclient = \<lparr> r_port = es_port c, r_host = es_host c, r_password = es_pass c, r_db = es_db c \<rparr>,
       cl_listen = (mqtt_port c, ws_port c) \<rparr>"

section \<open>Properties\<close>

lemma js_or_not_Nil: "d \<noteq> [] \<Longrightarrow> js_or v d \<noteq> []"
  by (simp add: js_or_def split: option.splits)

lemma Number_or_truthy: "d \<noteq> 0 \<Longrightarrow> jsnum_truthy (Number_or v d)"
  by (simp add: Number_or_def Let_def)

text \<open>The decimal text of a number.\<close>

fun decimal :: "nat \<Rightarrow> string" where
  "decimal n = (if n < 10 then [char_of (48 + n)] else decimal (n div 10) @ [char_of (48 + n mod 10)])"

declare decimal.simps [simp del]

lemma digit_char [simp]:
  assumes "d < 10"
  shows "digit_val (char_of (48 + d)) = Some d" "\<not> is_blank (char_of (48 + d))"
  using assms by (simp_all add: digit_val_def is_blank_def Let_def)

lemma decimal_digits: "list_all is_digit (decimal n) \<and> decimal n \<noteq> []"
proof (induction n rule: decimal.induct)
  case (1 n)
  then show ?case
    by (cases "n < 10") (simp_all add: decimal.simps [of n] is_digit_def)
qed

lemma decimal_value: "digits_value 10 digit_val (decimal n) = int n"
proof (induction n rule: decimal.induct)
  case (1 n)
  show ?case
  proof (cases "n < 10")
    case True
    then show ?thesis
      by (simp add: decimal.simps [of n] digits_value_def)
  next
    case False
    then have "digits_value 10 digit_val (decimal n) = 10 * int (n div 10) + int (n mod 10)"
      using 1 by (simp add: decimal.simps [of n] digits_value_def)
    also have "\<dots> = int n"
      by presburger
    finally show ?thesis .
  qed
qed

lemma digit_not_sign:
  assumes "is_digit c"
  shows "\<not> is_blank c" "c \<noteq> CHR ''-''" "c \<noteq> CHR ''+''" "c \<noteq> CHR ''I''"
    "c \<notin> {CHR ''x'', CHR ''X'', CHR ''o'', CHR ''O'', CHR ''b'', CHR ''B''}"
  using assms by (auto simp: is_digit_def digit_val_def is_blank_def Let_def split: if_splits)

lemma js_Number_digits:
  assumes "list_all is_digit s" "s \<noteq> []"
  shows "js_Number s = Decimal (digits_value 10 digit_val s) 0"
proof -
  have d: "\<forall>c\<in>set s. is_digit c"
    using assms(1) by (simp add: list_all_iff)
  then have "js_trim s = s"
    by (intro js_trim_id) (simp add: digit_not_sign(1))
  moreover have tw: "takeWhile is_digit s = s" "dropWhile is_digit s = []"
    using d by (simp_all add: takeWhile_eq_all_conv)
  moreover have "s \<noteq> ''Infinity''"
    using d digit_not_sign(4) [of "CHR ''I''"] by auto
  then have "unsigned_literal 1 s = Decimal (digits_value 10 digit_val s) 0"
    unfolding unsigned_literal_def tw(1,2) Let_def using assms(2) by (simp add: exponent_part_def)
  moreover have "js_Number_trimmed s = unsigned_literal 1 s"
  proof (cases s rule: js_Number_trimmed.cases)
    case (2 c cs)
    show ?thesis
      using d digit_not_sign [of c] digit_not_sign(5) [of "hd cs"] unfolding 2 by (cases cs) auto
  qed (use assms(2) in simp)
  ultimately show ?thesis
    by (simp add: js_Number_def)
qed

lemma Number_or_decimal: "Number_or (Some (decimal n)) d = Decimal (if n = 0 then d else int n) 0"
  using decimal_digits [of n] by (simp add: Number_or_def js_Number_digits decimal_value)

text \<open>
  A number given in decimal digits is the number that the adapter uses, for the port it listens
  on, for the life time of every stored packet and for the database it selects, except that zero
  is read as not given: a life time of \<open>0\<close> is 60 seconds.
\<close>

theorem config_numbers:
  assumes "env ''MF_MQTT_ADAPTER_PORT'' = Some (decimal n)" and "env ''MF_MQTT_ADAPTER_MESSAGE_TTL'' = Some (decimal k)"
    and "env ''MF_MQTT_ADAPTER_REDIS_DB'' = Some (decimal d)"
  shows "(let w = wire (read_config env argv2) in
     fst (cl_listen w) = Decimal (if n = 0 then 1883 else int n) 0 \<and>
     a_packetTTL (cl_aedes w) p = Decimal (if k = 0 then 60 else int k) 0 \<and>
     r_db (a_mq (cl_aedes w)) = Decimal (int d) 0 \<and> r_db (a_persistence (cl_aedes w)) = Decimal (int d) 0)"
  using assms by (simp add: Let_def wire_def read_config_def redis_config_def Number_or_decimal)

definition sample_env :: environment where
  "sample_env = [''MF_MQTT_ADAPTER_PORT'' \<mapsto> ''1884'', ''MF_MQTT_ADAPTER_MESSAGE_TTL'' \<mapsto> ''0'',
     ''MF_MQTT_ADAPTER_REDIS_DB'' \<mapsto> ''2'']"

theorem config_numbers_witness:
  "(let w = wire (read_config sample_env None) in
     fst (cl_listen w) = Decimal 1884 0 \<and> a_packetTTL (cl_aedes w) () = Decimal 60 0 \<and>
     r_db (a_mq (cl_aedes w)) = Decimal 2 0)"
proof -
  have "decimal 1884 = ''1884''" "decimal 0 = ''0''" "decimal 2 = ''2''"
    by code_simp+
  then show ?thesis
    using config_numbers [of sample_env 1884 0 2 None "()"] by (simp add: sample_env_def Let_def)
qed

text \<open>
  The connection to the things service is encrypted exactly when the variable is the text
  \<open>true\<close>, and then the certificates are the text of \<open>MF_MQTT_ADAPTER_CA_CERTS\<close> itself: the file
  that it names is not read.
\<close>

theorem things_credentials_env:
  "things_credentials (read_config env argv2) =
     (if env ''MF_MQTT_ADAPTER_CLIENT_TLS'' = Some ''true''
      then createSsl (case env ''MF_MQTT_ADAPTER_CA_CERTS'' of None \<Rightarrow> [] | Some path \<Rightarrow> path)
      else createInsecure)"
  by (simp add: things_credentials_def read_config_def js_or_def split: option.splits)

end
