(* ===== verification/Adapter_Http.thy ===== *)
theory Adapter_Http
  imports Adapter_Config
begin

text \<open>
  The servers and the loggers that \<open>mqtt/aedes/mqtt.js\<close> starts (lines 42 to 45, 99 to 112 and 119 to
  139). A response of Node's \<open>http\<close> module is a status code and headers that can be changed until
  \<open>end\<close> sends them; a second \<open>end\<close> does nothing. A server is the lists of its listeners: those of plain
  requests, of requests that are upgraded to a WebSocket, and of raw connections. The handler of the
  broker, \<open>aedes.handle\<close>, is a parameter.
\<close>

section \<open>The code\<close>

record http_response =
  statusCode :: nat
  headers :: "(string \<times> string) list"
  sent :: "(nat \<times> (string \<times> string) list \<times> string) option"

definition new_response :: http_response where
  "new_response = \<lparr> statusCode = 200, headers = [], sent = None \<rparr>"

definition setHeader :: "string \<Rightarrow> string \<Rightarrow> http_response \<Rightarrow> http_response" where
  "setHeader name v res = res\<lparr>headers := filter (\<lambda>h. fst h \<noteq> name) (headers res) @ [(name, v)]\<rparr>"

definition response_end :: "string \<Rightarrow> http_response \<Rightarrow> http_response" where
  "response_end body res =
     (case sent res of
        Some _ \<Rightarrow> res
      | None \<Rightarrow> res\<lparr>sent := Some (statusCode res, headers res, body)\<rparr>)"

definition version_body :: string where
  "version_body = ''{\"service\":\"mqtt-adapter\",\"version\":\"'' @ version @ ''\"}''"

definition not_found_body :: string where
  "not_found_body = ''{\"service\":\"mqtt-adpater\", \"message\": \"not found\"}''"

definition on_request :: "string \<Rightarrow> http_response \<Rightarrow> http_response" where
  "on_request url res =
     (let res = setHeader ''Content-Type'' ''application/json'' res;
          res = (if url = ''/version'' then response_end version_body (res\<lparr>statusCode := 200\<rparr>) else res);
          res = res\<lparr>statusCode := 404\<rparr>
      in response_end not_found_body res)"

text \<open>The servers: \<open>http.createServer\<close>, \<open>websocket.createServer\<close>, \<open>net.createServer\<close> and \<open>listen\<close>.\<close>

record 'h server =
  sv_request :: "(string \<Rightarrow> http_response \<Rightarrow> http_response) list"
  sv_upgrade :: "'h list"
  sv_connection :: "'h list"
  sv_port :: "jsnum option"

definition new_server :: "'h server" where
  "new_server = \<lparr> sv_request = [], sv_upgrade = [], sv_connection = [], sv_port = None \<rparr>"

definition startWs :: "'h \<Rightarrow> config \<Rightarrow> 'h server" where
  "startWs handle c =
     (let server = new_server;
          server = server\<lparr>sv_request := sv_request server @ [on_request]\<rparr>;
          server = server\<lparr>sv_upgrade := sv_upgrade server @ [handle]\<rparr>
      in server\<lparr>sv_port := Some (ws_port c)\<rparr>)"

definition startMqtt :: "'h \<Rightarrow> config \<Rightarrow> 'h server" where
  "startMqtt handle c = new_server\<lparr>sv_connection := [handle], sv_port := Some (mqtt_port c)\<rparr>"

text \<open>The event \<open>request\<close> calls the listeners in their order.\<close>

definition emit_request :: "'h server \<Rightarrow> string \<Rightarrow> http_response \<Rightarrow> http_response" where
  "emit_request server url res = fold (\<lambda>f. f url) (sv_request server) res"

text \<open>The logger of the adapter, whose level is set twice, and the logging of the broker.\<close>

record logger =
  lo_name :: string
  lo_level :: string

record 'h aedes_logging =
  al_servers :: "'h server list"
  al_level :: nat

record 'h process =
  pr_logger :: logger
  pr_servers :: "'h server list"
  pr_logging :: "'h aedes_logging"

definition start_process :: "'h \<Rightarrow> config \<Rightarrow> 'h process" where
  "start_process handle c =
     (let logger = \<lparr> lo_name = ''mqtt'', lo_level = log_level c \<rparr>;
          servers = [startMqtt handle c, startWs handle c];
          logging = \<lparr> al_servers = servers, al_level = 30 \<rparr>;
          logger = logger\<lparr>lo_level := log_level c\<rparr>
      in \<lparr> pr_logger = logger, pr_servers = servers, pr_logging = logging \<rparr>)"

section \<open>Properties\<close>

text \<open>
  Every request gets exactly one JSON answer: the version with status 200 at \<open>/version\<close>, and 404
  anywhere else. The missing \<open>return\<close> after the first answer does not change what is sent, but
  the status code of the response object is 404 in both cases.
\<close>

theorem on_request_answer:
  "(let res = emit_request (startWs handle c) url new_response in
     sent res = Some (if url = ''/version'' then 200 else 404, [(''Content-Type'', ''application/json'')],
       if url = ''/version'' then version_body else not_found_body) \<and>
     statusCode res = 404)"
  by (simp add: emit_request_def startWs_def new_server_def on_request_def new_response_def setHeader_def
      response_end_def Let_def)

text \<open>
  The broker is reached on two ports and nowhere else: for every environment, each server of the process
  listens on a port that is neither zero nor no number, the raw connections of the first and the upgraded requests of the second
  go to the broker, and these are the servers that the broker's logging watches.
\<close>

theorem start_process_servers:
  "(let p = start_process handle (read_config env argv2) in
     list_all (\<lambda>sv. \<exists>n. sv_port sv = Some n \<and> jsnum_truthy n) (pr_servers p) \<and>
     map (\<lambda>sv. (sv_connection sv, sv_upgrade sv, length (sv_request sv))) (pr_servers p) =
       [([handle], [], 0), ([], [handle], 1)] \<and>
     al_servers (pr_logging p) = pr_servers p \<and> lo_level (pr_logger p) \<noteq> [])"
  by (simp add: Let_def start_process_def startMqtt_def startWs_def new_server_def read_config_def Number_or_truthy
      js_or_not_Nil)

end
