(* ===== verification/Things_Api.thy ===== *)
theory Things_Api
  imports Js_Prelude
begin

text \<open>
  The interface between the MQTT adapter and the things service: the two gRPC calls that
  \<open>mqtt/aedes/mqtt.js\<close> makes (\<open>CanAccessByKey\<close> and \<open>Identify\<close> of \<open>authn.proto\<close>), as a locale.
  The laws are what the adapter relies on. Under an invariant of the service, an answer with a thing means that
  the thing owns the key and is connected to the channel, and answering changes neither. The second locale adds
  users who need not keep the invariant: then an answer means that this was so at some time.
\<close>

text \<open>The status codes of the service, and the one that the client reports when the service cannot be
  reached.\<close>

datatype grpc_status = InvalidArgument | PermissionDenied | Internal | Unavailable

locale things_service =
  fixes can_access :: "string \<Rightarrow> string \<Rightarrow> 's \<Rightarrow> (grpc_status + string) \<times> 's"
    and identify :: "string \<Rightarrow> 's \<Rightarrow> (grpc_status + string) \<times> 's"
    and inv :: "'s \<Rightarrow> bool"
    and key_thing :: "'s \<Rightarrow> string \<Rightarrow> string option"
    and connected :: "'s \<Rightarrow> string \<Rightarrow> string \<Rightarrow> bool"
  assumes access_sound: "inv s \<Longrightarrow> can_access token chan s = (Inr t, s') \<Longrightarrow>
      key_thing s token = Some t \<and> connected s chan t"
    and access_complete: "inv s \<Longrightarrow> token \<noteq> [] \<Longrightarrow> chan \<noteq> [] \<Longrightarrow> key_thing s token = Some t \<Longrightarrow>
      connected s chan t \<Longrightarrow> fst (can_access token chan s) = Inr t"
    and access_inv: "inv s \<Longrightarrow> can_access token chan s = (r, s') \<Longrightarrow>
      inv s' \<and> key_thing s' = key_thing s \<and> connected s' = connected s"
    and identify_sound: "inv s \<Longrightarrow> identify key s = (Inr t, s') \<Longrightarrow> key_thing s key = Some t"
    and identify_complete: "inv s \<Longrightarrow> key_thing s key = Some t \<Longrightarrow> fst (identify key s) = Inr t"
    and identify_inv: "inv s \<Longrightarrow> identify key s = (r, s') \<Longrightarrow>
      inv s' \<and> key_thing s' = key_thing s \<and> connected s' = connected s"
begin

text \<open>The answer does not depend on how often, or in which order, the service was asked before.\<close>

lemma access_iff:
  assumes "inv s" "token \<noteq> []" "chan \<noteq> []"
  shows "fst (can_access token chan s) = Inr t \<longleftrightarrow> key_thing s token = Some t \<and> connected s chan t"
  using assms access_complete access_sound by (metis prod.collapse)

lemma identify_iff:
  assumes "inv s"
  shows "fst (identify key s) = Inr t \<longleftrightarrow> key_thing s key = Some t"
  using assms identify_complete identify_sound by (metis prod.collapse)

lemma access_again:
  assumes "inv s" "can_access token chan s = (Inr t, s')" "token \<noteq> []" "chan \<noteq> []"
  shows "fst (can_access token chan s') = Inr t"
  using assms access_iff access_inv access_sound by metis

end

text \<open>A property that held in some state on the way from \<open>s0\<close> to \<open>s\<close>.\<close>

definition held :: "('s \<Rightarrow> 's \<Rightarrow> bool) \<Rightarrow> 's \<Rightarrow> 's \<Rightarrow> ('s \<Rightarrow> bool) \<Rightarrow> bool" where
  "held step s0 s P \<longleftrightarrow> (\<exists>s1. step\<^sup>*\<^sup>* s0 s1 \<and> step\<^sup>*\<^sup>* s1 s \<and> P s1)"

lemma held_now: "step\<^sup>*\<^sup>* s0 s \<Longrightarrow> P s \<Longrightarrow> held step s0 s P"
  by (auto simp: held_def)

lemma held_later: "held step s0 s P \<Longrightarrow> step s s' \<Longrightarrow> held step s0 s' P"
  by (auto simp: held_def intro: rtranclp.rtrancl_into_rtrancl)

text \<open>The service together with those who change it, whatever they do. Its answers come from its tables or
  from its caches, and an entry of a cache was true when it was made; whether it still is, is the
  invariant of the first locale, which the users may break. The service never refuses what its tables grant.\<close>

locale managed_things = things_service can_access identify inv key_thing connected
  for can_access :: "string \<Rightarrow> string \<Rightarrow> 's \<Rightarrow> (grpc_status + string) \<times> 's"
    and identify :: "string \<Rightarrow> 's \<Rightarrow> (grpc_status + string) \<times> 's"
    and inv :: "'s \<Rightarrow> bool"
    and key_thing :: "'s \<Rightarrow> string \<Rightarrow> string option"
    and connected :: "'s \<Rightarrow> string \<Rightarrow> string \<Rightarrow> bool" +
  fixes admin :: "'s \<Rightarrow> 's \<Rightarrow> bool"
    and key_cached :: "'s \<Rightarrow> string \<Rightarrow> string \<Rightarrow> bool"
    and conn_cached :: "'s \<Rightarrow> string \<Rightarrow> string \<Rightarrow> bool"
  assumes access_step: "can_access token chan s = (r, s') \<Longrightarrow> admin\<^sup>*\<^sup>* s s'"
    and identify_step: "identify key s = (r, s') \<Longrightarrow> admin\<^sup>*\<^sup>* s s'"
    and key_cache_filled: "admin s s' \<Longrightarrow> key_cached s' k t \<Longrightarrow> key_cached s k t \<or> key_thing s k = Some t"
    and conn_cache_filled: "admin s s' \<Longrightarrow> conn_cached s' c t \<Longrightarrow> conn_cached s c t \<or> connected s c t"
    and access_origin: "can_access token chan s = (Inr t, s') \<Longrightarrow>
      (key_cached s token t \<or> key_thing s token = Some t) \<and> (conn_cached s chan t \<or> connected s chan t)"
    and identify_origin: "identify key s = (Inr t, s') \<Longrightarrow> key_cached s key t \<or> key_thing s key = Some t"
    and access_accepts: "token \<noteq> [] \<Longrightarrow> chan \<noteq> [] \<Longrightarrow> key_thing s token = Some t \<Longrightarrow> connected s chan t \<Longrightarrow>
      \<exists>t' s'. can_access token chan s = (Inr t', s')"
begin

lemma key_cached_held:
  assumes "admin\<^sup>*\<^sup>* s0 s" "\<And>k t. key_cached s0 k t \<Longrightarrow> key_thing s0 k = Some t" "key_cached s k t \<or> key_thing s k = Some t"
  shows "held admin s0 s (\<lambda>s1. key_thing s1 k = Some t)"
  using assms(1,3)
proof (induction)
  case base
  then show ?case
    using assms(2) by (auto intro: held_now)
next
  case (step s s')
  then show ?case
  proof (cases "key_thing s' k = Some t")
    case False
    with step show ?thesis
      using key_cache_filled held_later by metis
  qed (auto intro: held_now)
qed

lemma conn_cached_held:
  assumes "admin\<^sup>*\<^sup>* s0 s" "\<And>c t. conn_cached s0 c t \<Longrightarrow> connected s0 c t" "conn_cached s c t \<or> connected s c t"
  shows "held admin s0 s (\<lambda>s1. connected s1 c t)"
  using assms(1,3)
proof (induction)
  case base
  then show ?case
    using assms(2) by (auto intro: held_now)
next
  case (step s s')
  then show ?case
  proof (cases "connected s' c t")
    case False
    with step show ?thesis
      using conn_cache_filled held_later by metis
  qed (auto intro: held_now)
qed

end

end
