(* ===== verification/Things_Service.thy ===== *)
theory Things_Service
  imports Things_Api
begin

text \<open>
  The things service (Go, \<open>things/service.go\<close>): the tables of \<open>things/postgres\<close>, the two Redis
  caches of \<open>things/redis\<close>, the operations that change them or decide who may access a channel, and
  the gRPC endpoints of \<open>things/api/auth/grpc\<close>. The views and listings are in \<open>Things_Views\<close>.

  PostgreSQL's reading of a text as a UUID is the parameter \<open>pg_uuid\<close> (\<open>None\<close>: the text is
  refused): several texts can name one identifier. The authentication service that turns a
  user's token into an owner is the parameter \<open>auth\<close>, and the identifiers that the identity
  provider hands out are a list of texts. Owners are the e-mail addresses of the users' table, which
  has the width of the owner's column, so they always fit. Failures of the database and of Redis are
  left out. The properties are in the theory of the caches.
\<close>

section \<open>State\<close>

text \<open>JSON values; metadata is a Go map from texts to JSON values, \<open>None\<close> the nil map.\<close>

datatype json = JNull | JBool bool | JNum int | JStr string | JArr "json list" | JObj "(string \<times> json) list"

type_synonym metadata = "(string \<times> json) list"

text \<open>The structs \<open>Thing\<close> and \<open>Channel\<close>.\<close>

record thing =
  thing_ID :: string
  thing_Owner :: string
  thing_Name :: string
  thing_Key :: string
  thing_Metadata :: "metadata option"

record channel =
  channel_ID :: string
  channel_Owner :: string
  channel_Name :: string
  channel_Metadata :: "metadata option"

text \<open>The rows of the tables; the metadata of a channel can be \<open>NULL\<close>.\<close>

record thing_row =
  t_id :: string
  t_owner :: string
  t_key :: string
  t_name :: string
  t_metadata :: metadata

record channel_row =
  c_id :: string
  c_owner :: string
  c_name :: string
  c_metadata :: "metadata option"

text \<open>\<open>channel_owner\<close> and \<open>thing_owner\<close> of a connection are always inserted equal.\<close>

record conn_row =
  co_channel :: string
  co_thing :: string
  co_owner :: string

record things_state =
  things_tbl :: "thing_row list"
  channels_tbl :: "channel_row list"
  conns_tbl :: "conn_row list"
  redis_str :: "string \<Rightarrow> string option"
  redis_set :: "string \<Rightarrow> string set"

datatype svc_error = ErrMalformedEntity | ErrUnauthorizedAccess | ErrNotFound | ErrConflict | OtherError

section \<open>The caches\<close>

definition tkey :: "string \<Rightarrow> string" where
  "tkey k = ''thing_key:'' @ k"

definition tid :: "string \<Rightarrow> string" where
  "tid i = ''thing:'' @ i"

definition cid :: "string \<Rightarrow> string" where
  "cid c = ''channel:'' @ c"

definition thingCache_Save :: "string \<Rightarrow> string \<Rightarrow> things_state \<Rightarrow> things_state" where
  "thingCache_Save thingKey thingID s =
     s\<lparr>redis_str := (redis_str s)(tkey thingKey \<mapsto> thingID, tid thingID \<mapsto> thingKey)\<rparr>"

definition thingCache_ID :: "string \<Rightarrow> things_state \<Rightarrow> string option" where
  "thingCache_ID thingKey s = redis_str s (tkey thingKey)"

definition thingCache_Remove :: "string \<Rightarrow> things_state \<Rightarrow> things_state" where
  "thingCache_Remove thingID s =
     (case redis_str s (tid thingID) of
        None \<Rightarrow> s
      | Some key \<Rightarrow> s\<lparr>redis_str := (redis_str s)(tkey key := None, tid thingID := None)\<rparr>)"

definition channelCache_Connect :: "string \<Rightarrow> string \<Rightarrow> things_state \<Rightarrow> things_state" where
  "channelCache_Connect chanID thingID s =
     s\<lparr>redis_set := (redis_set s)(cid chanID := insert thingID (redis_set s (cid chanID)))\<rparr>"

definition channelCache_HasThing :: "string \<Rightarrow> string \<Rightarrow> things_state \<Rightarrow> bool" where
  "channelCache_HasThing chanID thingID s \<longleftrightarrow> thingID \<in> redis_set s (cid chanID)"

definition channelCache_Disconnect :: "string \<Rightarrow> string \<Rightarrow> things_state \<Rightarrow> things_state" where
  "channelCache_Disconnect chanID thingID s =
     s\<lparr>redis_set := (redis_set s)(cid chanID := redis_set s (cid chanID) - {thingID})\<rparr>"

definition channelCache_Remove :: "string \<Rightarrow> things_state \<Rightarrow> things_state" where
  "channelCache_Remove chanID s = s\<lparr>redis_set := (redis_set s)(cid chanID := {})\<rparr>"

section \<open>The repositories\<close>

text \<open>A text assigned to a column \<open>VARCHAR(n)\<close>: what is too long is refused, unless the rest is blank.\<close>

definition varchar :: "nat \<Rightarrow> string \<Rightarrow> string option" where
  "varchar n s =
     (if length s \<le> n then Some s
      else if list_all (\<lambda>c. c = CHR '' '') (drop n s) then Some (take n s)
      else None)"

definition toDBThing :: "thing \<Rightarrow> thing_row" where
  "toDBThing th =
     \<lparr> t_id = thing_ID th, t_owner = thing_Owner th, t_key = thing_Key th, t_name = thing_Name th,
       t_metadata = (case thing_Metadata th of None \<Rightarrow> [] | Some m \<Rightarrow> m) \<rparr>"

text \<open>The row that one \<open>INSERT INTO things\<close> stores, or \<open>None\<close> where a column refuses its value.\<close>

definition stored_thing :: "(string \<Rightarrow> string option) \<Rightarrow> thing \<Rightarrow> thing_row option" where
  "stored_thing pg_uuid th =
     (let r = toDBThing th in
      case (pg_uuid (t_id r), varchar 4096 (t_key r), varchar 1024 (t_name r)) of
        (Some i, Some k, Some n) \<Rightarrow> Some (r\<lparr>t_id := i, t_key := k, t_name := n\<rparr>)
      | _ \<Rightarrow> None)"

fun things_Save :: "(string \<Rightarrow> string option) \<Rightarrow> thing list \<Rightarrow> thing_row list \<Rightarrow> svc_error + thing_row list" where
  "things_Save pg_uuid [] tbl = Inr tbl"
| "things_Save pg_uuid (th # ths) tbl =
     (case stored_thing pg_uuid th of
        None \<Rightarrow> Inl ErrMalformedEntity
      | Some r \<Rightarrow>
          if list_ex (\<lambda>x. t_key x = t_key r \<or> t_id x = t_id r \<and> t_owner x = t_owner r) tbl
          then Inl ErrConflict
          else things_Save pg_uuid ths (tbl @ [r]))"

definition things_Update ::
  "(string \<Rightarrow> string option) \<Rightarrow> thing \<Rightarrow> thing_row list \<Rightarrow> svc_error + thing_row list" where
  "things_Update pg_uuid th tbl =
     (let dbth = toDBThing th in
      case (pg_uuid (t_id dbth), varchar 1024 (t_name dbth)) of
        (Some i, Some name) \<Rightarrow>
          (let hit = (\<lambda>r. t_owner r = t_owner dbth \<and> t_id r = i) in
           if \<not> list_ex hit tbl then Inl ErrNotFound
           else Inr (map (\<lambda>r. if hit r then r\<lparr>t_name := name, t_metadata := t_metadata dbth\<rparr> else r) tbl))
      | _ \<Rightarrow> Inl ErrMalformedEntity)"

definition things_UpdateKey ::
  "(string \<Rightarrow> string option) \<Rightarrow> string \<Rightarrow> string \<Rightarrow> string \<Rightarrow> thing_row list \<Rightarrow> svc_error + thing_row list" where
  "things_UpdateKey pg_uuid owner ident key tbl =
     (case pg_uuid ident of
        None \<Rightarrow> Inl ErrMalformedEntity
      | Some i \<Rightarrow>
          (case varchar 4096 key of
             None \<Rightarrow> Inl OtherError
           | Some key \<Rightarrow>
               (let hit = (\<lambda>r. t_owner r = owner \<and> t_id r = i) in
                if \<not> list_ex hit tbl then Inl ErrNotFound
                else if list_ex (\<lambda>r. \<not> hit r \<and> t_key r = key) tbl then Inl ErrConflict
                else Inr (map (\<lambda>r. if hit r then r\<lparr>t_key := key\<rparr> else r) tbl))))"

definition things_RetrieveByKey :: "string \<Rightarrow> things_state \<Rightarrow> string option" where
  "things_RetrieveByKey key s = map_option t_id (find (\<lambda>r. t_key r = key) (things_tbl s))"

text \<open>Deleting a thing or a channel deletes its connections (\<open>ON DELETE CASCADE\<close>).\<close>

definition things_Remove :: "(string \<Rightarrow> string option) \<Rightarrow> string \<Rightarrow> string \<Rightarrow> things_state \<Rightarrow> things_state" where
  "things_Remove pg_uuid owner ident s =
     (case pg_uuid ident of
        None \<Rightarrow> s
      | Some i \<Rightarrow> s\<lparr>things_tbl := filter (\<lambda>r. \<not> (t_id r = i \<and> t_owner r = owner)) (things_tbl s),
                    conns_tbl := filter (\<lambda>r. \<not> (co_thing r = i \<and> co_owner r = owner)) (conns_tbl s)\<rparr>)"

definition toDBChannel :: "channel \<Rightarrow> channel_row" where
  "toDBChannel ch =
     \<lparr> c_id = channel_ID ch, c_owner = channel_Owner ch, c_name = channel_Name ch,
       c_metadata = (case channel_Metadata ch of None \<Rightarrow> None | Some m \<Rightarrow> if m = [] then None else Some m) \<rparr>"

definition stored_channel :: "(string \<Rightarrow> string option) \<Rightarrow> channel \<Rightarrow> channel_row option" where
  "stored_channel pg_uuid ch =
     (let r = toDBChannel ch in
      case (pg_uuid (c_id r), varchar 1024 (c_name r)) of
        (Some i, Some n) \<Rightarrow> Some (r\<lparr>c_id := i, c_name := n\<rparr>)
      | _ \<Rightarrow> None)"

fun channels_Save :: "(string \<Rightarrow> string option) \<Rightarrow> channel list \<Rightarrow> channel_row list \<Rightarrow> svc_error + channel_row list" where
  "channels_Save pg_uuid [] tbl = Inr tbl"
| "channels_Save pg_uuid (ch # chs) tbl =
     (case stored_channel pg_uuid ch of
        None \<Rightarrow> Inl ErrMalformedEntity
      | Some r \<Rightarrow>
          if list_ex (\<lambda>x. c_id x = c_id r \<and> c_owner x = c_owner r) tbl then Inl ErrConflict
          else channels_Save pg_uuid chs (tbl @ [r]))"

definition channels_Update ::
  "(string \<Rightarrow> string option) \<Rightarrow> channel \<Rightarrow> channel_row list \<Rightarrow> svc_error + channel_row list" where
  "channels_Update pg_uuid ch tbl =
     (let dbch = toDBChannel ch in
      case (pg_uuid (c_id dbch), varchar 1024 (c_name dbch)) of
        (Some i, Some name) \<Rightarrow>
          (let hit = (\<lambda>r. c_owner r = c_owner dbch \<and> c_id r = i) in
           if \<not> list_ex hit tbl then Inl ErrNotFound
           else Inr (map (\<lambda>r. if hit r then r\<lparr>c_name := name, c_metadata := c_metadata dbch\<rparr> else r) tbl))
      | _ \<Rightarrow> Inl ErrMalformedEntity)"

definition channels_Remove :: "(string \<Rightarrow> string option) \<Rightarrow> string \<Rightarrow> string \<Rightarrow> things_state \<Rightarrow> things_state" where
  "channels_Remove pg_uuid owner ident s =
     (case pg_uuid ident of
        None \<Rightarrow> s
      | Some i \<Rightarrow> s\<lparr>channels_tbl := filter (\<lambda>r. \<not> (c_id r = i \<and> c_owner r = owner)) (channels_tbl s),
                    conns_tbl := filter (\<lambda>r. \<not> (co_channel r = i \<and> co_owner r = owner)) (conns_tbl s)\<rparr>)"

text \<open>One \<open>INSERT INTO connections\<close> with its foreign keys and primary key, and the two loops of
  \<open>Connect\<close> over the channels and the things.\<close>

definition insert_connection ::
  "(string \<Rightarrow> string option) \<Rightarrow> string \<Rightarrow> things_state \<Rightarrow> string \<times> string \<Rightarrow> conn_row list \<Rightarrow> svc_error + conn_row list" where
  "insert_connection pg_uuid owner s ct conns =
     (case (pg_uuid (fst ct), pg_uuid (snd ct)) of
        (Some c, Some t) \<Rightarrow>
          (let row = \<lparr> co_channel = c, co_thing = t, co_owner = owner \<rparr> in
           if row \<in> set conns then Inl ErrConflict
           else if \<not> list_ex (\<lambda>r. c_id r = c \<and> c_owner r = owner) (channels_tbl s)
             \<or> \<not> list_ex (\<lambda>r. t_id r = t \<and> t_owner r = owner) (things_tbl s)
           then Inl ErrNotFound
           else Inr (conns @ [row]))
      | _ \<Rightarrow> Inl OtherError)"

fun insert_connections ::
  "(string \<Rightarrow> string option) \<Rightarrow> string \<Rightarrow> things_state \<Rightarrow> (string \<times> string) list \<Rightarrow> conn_row list \<Rightarrow> svc_error + conn_row list" where
  "insert_connections pg_uuid owner s [] conns = Inr conns"
| "insert_connections pg_uuid owner s (ct # cts) conns =
     (case insert_connection pg_uuid owner s ct conns of
        Inl e \<Rightarrow> Inl e
      | Inr conns \<Rightarrow> insert_connections pg_uuid owner s cts conns)"

definition channels_Connect ::
  "(string \<Rightarrow> string option) \<Rightarrow> string \<Rightarrow> string list \<Rightarrow> string list \<Rightarrow> things_state \<Rightarrow> svc_error + conn_row list" where
  "channels_Connect pg_uuid owner chIDs thIDs s =
     insert_connections pg_uuid owner s (List.product chIDs thIDs) (conns_tbl s)"

definition channels_Disconnect ::
  "(string \<Rightarrow> string option) \<Rightarrow> string \<Rightarrow> string \<Rightarrow> string \<Rightarrow> conn_row list \<Rightarrow> svc_error + conn_row list" where
  "channels_Disconnect pg_uuid owner chanID thingID conns =
     (case (pg_uuid chanID, pg_uuid thingID) of
        (Some c, Some t) \<Rightarrow>
          (let hit = (\<lambda>r. co_channel r = c \<and> co_thing r = t \<and> co_owner r = owner) in
           if list_ex hit conns then Inr (filter (\<lambda>r. \<not> hit r) conns) else Inl ErrNotFound)
      | _ \<Rightarrow> Inl OtherError)"

text \<open>\<open>SELECT EXISTS\<close> of \<open>hasThing\<close>: a text that is no UUID makes the query fail.\<close>

definition channels_HasThingByID :: "(string \<Rightarrow> string option) \<Rightarrow> string \<Rightarrow> string \<Rightarrow> things_state \<Rightarrow> bool" where
  "channels_HasThingByID pg_uuid chanID thingID s =
     (case (pg_uuid chanID, pg_uuid thingID) of
        (Some c, Some t) \<Rightarrow> list_ex (\<lambda>r. co_channel r = c \<and> co_thing r = t) (conns_tbl s)
      | _ \<Rightarrow> False)"

definition channels_HasThing :: "(string \<Rightarrow> string option) \<Rightarrow> string \<Rightarrow> string \<Rightarrow> things_state \<Rightarrow> string option" where
  "channels_HasThing pg_uuid chanID key s =
     (case things_RetrieveByKey key s of
        None \<Rightarrow> None
      | Some thingID \<Rightarrow> if channels_HasThingByID pg_uuid chanID thingID s then Some thingID else None)"

section \<open>The service\<close>

text \<open>The identity provider: the identifiers of the things, and their keys where none is given.\<close>

fun assign_ids :: "string \<Rightarrow> thing list \<Rightarrow> string list \<Rightarrow> (thing list \<times> string list) option" where
  "assign_ids owner [] ids = Some ([], ids)"
| "assign_ids owner (th # ths) ids =
     (case ids of [] \<Rightarrow> None
      | i # ids \<Rightarrow>
          (let th = th\<lparr>thing_ID := i, thing_Owner := owner\<rparr> in
           case (if thing_Key th = [] then (case ids of [] \<Rightarrow> None | k # ids \<Rightarrow> Some (th\<lparr>thing_Key := k\<rparr>, ids))
                 else Some (th, ids)) of
             None \<Rightarrow> None
           | Some (th, ids) \<Rightarrow> map_option (\<lambda>(ths, ids). (th # ths, ids)) (assign_ids owner ths ids)))"

definition CreateThings ::
  "(string \<Rightarrow> string option) \<Rightarrow> (string \<Rightarrow> string option) \<Rightarrow> string \<Rightarrow> thing list \<Rightarrow> string list \<Rightarrow> things_state \<Rightarrow>
   (svc_error + thing list) \<times> things_state" where
  "CreateThings pg_uuid auth token ths ids s =
     (case auth token of
        None \<Rightarrow> (Inl ErrUnauthorizedAccess, s)
      | Some owner \<Rightarrow>
          (case assign_ids owner ths ids of
             None \<Rightarrow> (Inl OtherError, s)
           | Some (ths, _) \<Rightarrow>
               (case things_Save pg_uuid ths (things_tbl s) of
                  Inl e \<Rightarrow> (Inl e, s)
                | Inr tbl \<Rightarrow> (Inr ths, s\<lparr>things_tbl := tbl\<rparr>))))"

definition UpdateThing ::
  "(string \<Rightarrow> string option) \<Rightarrow> (string \<Rightarrow> string option) \<Rightarrow> string \<Rightarrow> thing \<Rightarrow> things_state \<Rightarrow> (svc_error option) \<times> things_state" where
  "UpdateThing pg_uuid auth token th s =
     (case auth token of
        None \<Rightarrow> (Some ErrUnauthorizedAccess, s)
      | Some owner \<Rightarrow>
          (case things_Update pg_uuid (th\<lparr>thing_Owner := owner\<rparr>) (things_tbl s) of
             Inl e \<Rightarrow> (Some e, s)
           | Inr tbl \<Rightarrow> (None, s\<lparr>things_tbl := tbl\<rparr>)))"

definition UpdateKey ::
  "(string \<Rightarrow> string option) \<Rightarrow> (string \<Rightarrow> string option) \<Rightarrow> string \<Rightarrow> string \<Rightarrow> string \<Rightarrow> things_state \<Rightarrow> (svc_error option) \<times> things_state" where
  "UpdateKey pg_uuid auth token ident key s =
     (case auth token of
        None \<Rightarrow> (Some ErrUnauthorizedAccess, s)
      | Some owner \<Rightarrow>
          (case things_UpdateKey pg_uuid owner ident key (things_tbl s) of
             Inl e \<Rightarrow> (Some e, s)
           | Inr tbl \<Rightarrow> (None, s\<lparr>things_tbl := tbl\<rparr>)))"

definition RemoveThing ::
  "(string \<Rightarrow> string option) \<Rightarrow> (string \<Rightarrow> string option) \<Rightarrow> string \<Rightarrow> string \<Rightarrow> things_state \<Rightarrow> (svc_error option) \<times> things_state" where
  "RemoveThing pg_uuid auth token ident s =
     (case auth token of
        None \<Rightarrow> (Some ErrUnauthorizedAccess, s)
      | Some owner \<Rightarrow> (None, things_Remove pg_uuid owner ident (thingCache_Remove ident s)))"

fun assign_channel_ids :: "string \<Rightarrow> channel list \<Rightarrow> string list \<Rightarrow> channel list option" where
  "assign_channel_ids owner [] ids = Some []"
| "assign_channel_ids owner (ch # chs) ids =
     (case ids of [] \<Rightarrow> None
      | i # ids \<Rightarrow>
          map_option (\<lambda>chs. ch\<lparr>channel_ID := i, channel_Owner := owner\<rparr> # chs) (assign_channel_ids owner chs ids))"

definition CreateChannels ::
  "(string \<Rightarrow> string option) \<Rightarrow> (string \<Rightarrow> string option) \<Rightarrow> string \<Rightarrow> channel list \<Rightarrow> string list \<Rightarrow> things_state \<Rightarrow>
   (svc_error + channel list) \<times> things_state" where
  "CreateChannels pg_uuid auth token chs ids s =
     (case auth token of
        None \<Rightarrow> (Inl ErrUnauthorizedAccess, s)
      | Some owner \<Rightarrow>
          (case assign_channel_ids owner chs ids of
             None \<Rightarrow> (Inl OtherError, s)
           | Some chs \<Rightarrow>
               (case channels_Save pg_uuid chs (channels_tbl s) of
                  Inl e \<Rightarrow> (Inl e, s)
                | Inr tbl \<Rightarrow> (Inr chs, s\<lparr>channels_tbl := tbl\<rparr>))))"

definition UpdateChannel ::
  "(string \<Rightarrow> string option) \<Rightarrow> (string \<Rightarrow> string option) \<Rightarrow> string \<Rightarrow> channel \<Rightarrow> things_state \<Rightarrow> (svc_error option) \<times> things_state" where
  "UpdateChannel pg_uuid auth token ch s =
     (case auth token of
        None \<Rightarrow> (Some ErrUnauthorizedAccess, s)
      | Some owner \<Rightarrow>
          (case channels_Update pg_uuid (ch\<lparr>channel_Owner := owner\<rparr>) (channels_tbl s) of
             Inl e \<Rightarrow> (Some e, s)
           | Inr tbl \<Rightarrow> (None, s\<lparr>channels_tbl := tbl\<rparr>)))"

definition RemoveChannel ::
  "(string \<Rightarrow> string option) \<Rightarrow> (string \<Rightarrow> string option) \<Rightarrow> string \<Rightarrow> string \<Rightarrow> things_state \<Rightarrow> (svc_error option) \<times> things_state" where
  "RemoveChannel pg_uuid auth token ident s =
     (case auth token of
        None \<Rightarrow> (Some ErrUnauthorizedAccess, s)
      | Some owner \<Rightarrow> (None, channels_Remove pg_uuid owner ident (channelCache_Remove ident s)))"

definition Connect ::
  "(string \<Rightarrow> string option) \<Rightarrow> (string \<Rightarrow> string option) \<Rightarrow> string \<Rightarrow> string list \<Rightarrow> string list \<Rightarrow> things_state \<Rightarrow> (svc_error option) \<times> things_state" where
  "Connect pg_uuid auth token chIDs thIDs s =
     (case auth token of
        None \<Rightarrow> (Some ErrUnauthorizedAccess, s)
      | Some owner \<Rightarrow>
          (case channels_Connect pg_uuid owner chIDs thIDs s of
             Inl e \<Rightarrow> (Some e, s)
           | Inr tbl \<Rightarrow> (None, s\<lparr>conns_tbl := tbl\<rparr>)))"

definition Disconnect ::
  "(string \<Rightarrow> string option) \<Rightarrow> (string \<Rightarrow> string option) \<Rightarrow> string \<Rightarrow> string \<Rightarrow> string \<Rightarrow> things_state \<Rightarrow> (svc_error option) \<times> things_state" where
  "Disconnect pg_uuid auth token chanID thingID s =
     (case auth token of
        None \<Rightarrow> (Some ErrUnauthorizedAccess, s)
      | Some owner \<Rightarrow>
          (let s = channelCache_Disconnect chanID thingID s in
           case channels_Disconnect pg_uuid owner chanID thingID (conns_tbl s) of
             Inl e \<Rightarrow> (Some e, s)
           | Inr tbl \<Rightarrow> (None, s\<lparr>conns_tbl := tbl\<rparr>)))"

text \<open>The unexported \<open>hasThing\<close>: the answer of the caches.\<close>

definition hasThing :: "string \<Rightarrow> string \<Rightarrow> things_state \<Rightarrow> string option" where
  "hasThing chanID key s =
     (case thingCache_ID key s of
        None \<Rightarrow> None
      | Some thingID \<Rightarrow> if channelCache_HasThing chanID thingID s then Some thingID else None)"

definition CanAccessByKey ::
  "(string \<Rightarrow> string option) \<Rightarrow> string \<Rightarrow> string \<Rightarrow> things_state \<Rightarrow> (svc_error + string) \<times> things_state" where
  "CanAccessByKey pg_uuid chanID key s =
     (case hasThing chanID key s of
        Some thingID \<Rightarrow> (Inr thingID, s)
      | None \<Rightarrow>
          (case channels_HasThing pg_uuid chanID key s of
             None \<Rightarrow> (Inl ErrUnauthorizedAccess, s)
           | Some thingID \<Rightarrow>
               (Inr thingID, channelCache_Connect chanID thingID (thingCache_Save key thingID s))))"

definition CanAccessByID ::
  "(string \<Rightarrow> string option) \<Rightarrow> string \<Rightarrow> string \<Rightarrow> things_state \<Rightarrow> (svc_error option) \<times> things_state" where
  "CanAccessByID pg_uuid chanID thingID s =
     (if channelCache_HasThing chanID thingID s then (None, s)
      else if \<not> channels_HasThingByID pg_uuid chanID thingID s then (Some ErrUnauthorizedAccess, s)
      else (None, channelCache_Connect chanID thingID s))"

definition Identify :: "string \<Rightarrow> things_state \<Rightarrow> (svc_error + string) \<times> things_state" where
  "Identify key s =
     (case thingCache_ID key s of
        Some ident \<Rightarrow> (Inr ident, s)
      | None \<Rightarrow>
          (case things_RetrieveByKey key s of
             None \<Rightarrow> (Inl ErrUnauthorizedAccess, s)
           | Some ident \<Rightarrow> (Inr ident, thingCache_Save key ident s)))"

text \<open>The interface \<open>Service\<close>, as far as it changes state, as the requests of a user with a token and those of the
  adapters, which need none; the identifiers are those that the identity provider gives out.\<close>

datatype things_request =
    ReqCreateThings "thing list" "string list"
  | ReqUpdateThing thing
  | ReqUpdateKey string string
  | ReqRemoveThing string
  | ReqCreateChannels "channel list" "string list"
  | ReqUpdateChannel channel
  | ReqRemoveChannel string
  | ReqConnect "string list" "string list"
  | ReqDisconnect string string
  | ReqCanAccessByKey string string
  | ReqCanAccessByID string string
  | ReqIdentify string

fun things_serve ::
  "(string \<Rightarrow> string option) \<Rightarrow> (string \<Rightarrow> string option) \<Rightarrow> string \<Rightarrow> things_request \<Rightarrow> things_state \<Rightarrow> things_state" where
  "things_serve pg_uuid auth token (ReqCreateThings ths ids) s = snd (CreateThings pg_uuid auth token ths ids s)"
| "things_serve pg_uuid auth token (ReqUpdateThing th) s = snd (UpdateThing pg_uuid auth token th s)"
| "things_serve pg_uuid auth token (ReqUpdateKey ident key) s = snd (UpdateKey pg_uuid auth token ident key s)"
| "things_serve pg_uuid auth token (ReqRemoveThing ident) s = snd (RemoveThing pg_uuid auth token ident s)"
| "things_serve pg_uuid auth token (ReqCreateChannels chs ids) s = snd (CreateChannels pg_uuid auth token chs ids s)"
| "things_serve pg_uuid auth token (ReqUpdateChannel ch) s = snd (UpdateChannel pg_uuid auth token ch s)"
| "things_serve pg_uuid auth token (ReqRemoveChannel ident) s = snd (RemoveChannel pg_uuid auth token ident s)"
| "things_serve pg_uuid auth token (ReqConnect chIDs thIDs) s = snd (Connect pg_uuid auth token chIDs thIDs s)"
| "things_serve pg_uuid auth token (ReqDisconnect chanID thingID) s = snd (Disconnect pg_uuid auth token chanID thingID s)"
| "things_serve pg_uuid auth token (ReqCanAccessByKey chanID key) s = snd (CanAccessByKey pg_uuid chanID key s)"
| "things_serve pg_uuid auth token (ReqCanAccessByID chanID thingID) s = snd (CanAccessByID pg_uuid chanID thingID s)"
| "things_serve pg_uuid auth token (ReqIdentify key) s = snd (Identify key s)"

section \<open>The gRPC endpoints\<close>

definition encodeError :: "svc_error \<Rightarrow> grpc_status" where
  "encodeError e =
     (case e of
        ErrMalformedEntity \<Rightarrow> InvalidArgument
      | ErrUnauthorizedAccess \<Rightarrow> PermissionDenied
      | _ \<Rightarrow> Internal)"

definition encode_response :: "(svc_error + 'a) \<times> things_state \<Rightarrow> (grpc_status + 'a) \<times> things_state" where
  "encode_response r = (case fst r of Inl e \<Rightarrow> Inl (encodeError e) | Inr a \<Rightarrow> Inr a, snd r)"

definition grpc_CanAccessByKey ::
  "(string \<Rightarrow> string option) \<Rightarrow> string \<Rightarrow> string \<Rightarrow> things_state \<Rightarrow> (grpc_status + string) \<times> things_state" where
  "grpc_CanAccessByKey pg_uuid token chanID s =
     (if chanID = [] \<or> token = [] then encode_response (Inl ErrMalformedEntity, s)
      else encode_response (CanAccessByKey pg_uuid chanID token s))"

definition grpc_CanAccessByID ::
  "(string \<Rightarrow> string option) \<Rightarrow> string \<Rightarrow> string \<Rightarrow> things_state \<Rightarrow> (grpc_status + unit) \<times> things_state" where
  "grpc_CanAccessByID pg_uuid thingID chanID s =
     (if thingID = [] \<or> chanID = [] then encode_response (Inl ErrMalformedEntity, s)
      else (let (e, s') = CanAccessByID pg_uuid chanID thingID s
            in encode_response (case e of Some e \<Rightarrow> Inl e | None \<Rightarrow> Inr (), s')))"

definition grpc_Identify :: "string \<Rightarrow> things_state \<Rightarrow> (grpc_status + string) \<times> things_state" where
  "grpc_Identify token s = encode_response (Identify token s)"

end
