(* ===== verification/Js_Regex.thy ===== *)
theory Js_Regex
  imports Js_Prelude
begin

text \<open>
  The backtracking semantics of the JavaScript regular expressions that \<open>parseTopic\<close> of
  \<open>mqtt/aedes/mqtt.js\<close> uses: literals, the dot, greedy \<open>?\<close> and \<open>*\<close>, lazy \<open>*?\<close> and \<open>+?\<close>, one
  capture group and the two anchors. A matcher takes a state (the index, the rest of the input
  and the capture) and a continuation, as in the language's definition; an iteration of a
  quantifier that consumes nothing is refused.

  The theory ends with the closed form of the matcher on the expressions
  \<open>^channels/(.+?)<mark>/?.*$\<close>: the shortest non-empty text before a mark.
\<close>

section \<open>Expressions and their matcher\<close>

datatype regexp =
    Chr char
  | Dot
  | Bol
  | Eol
  | Seq regexp regexp
  | Opt regexp
  | Star regexp
  | LazyStar regexp
  | Group regexp

type_synonym mstate = "nat \<times> string \<times> string option"

abbreviation rest_of :: "mstate \<Rightarrow> string" where
  "rest_of x \<equiv> fst (snd x)"

text \<open>The dot matches everything but the line terminators (those of Latin-1).\<close>

definition line_terminator :: "char \<Rightarrow> bool" where
  "line_terminator c \<longleftrightarrow> (of_char c :: nat) = 10 \<or> (of_char c :: nat) = 13"

function (sequential) rmatch :: "regexp \<Rightarrow> mstate \<Rightarrow> (mstate \<Rightarrow> mstate option) \<Rightarrow> mstate option" where
  "rmatch (Chr c) (i, s, cap) k =
     (case s of [] \<Rightarrow> None | x # xs \<Rightarrow> if x = c then k (i + 1, xs, cap) else None)"
| "rmatch Dot (i, s, cap) k =
     (case s of [] \<Rightarrow> None | x # xs \<Rightarrow> if line_terminator x then None else k (i + 1, xs, cap))"
| "rmatch Bol (i, s, cap) k = (if i = 0 then k (i, s, cap) else None)"
| "rmatch Eol (i, s, cap) k = (if s = [] then k (i, s, cap) else None)"
| "rmatch (Seq a b) x k = rmatch a x (\<lambda>y. rmatch b y k)"
| "rmatch (Opt r) x k =
     (case rmatch r x (\<lambda>y. if length (rest_of y) < length (rest_of x) then k y else None) of
        Some z \<Rightarrow> Some z | None \<Rightarrow> k x)"
| "rmatch (Star r) x k =
     (case rmatch r x (\<lambda>y. if length (rest_of y) < length (rest_of x) then rmatch (Star r) y k else None) of
        Some z \<Rightarrow> Some z | None \<Rightarrow> k x)"
| "rmatch (LazyStar r) x k =
     (case k x of Some z \<Rightarrow> Some z
      | None \<Rightarrow> rmatch r x (\<lambda>y. if length (rest_of y) < length (rest_of x) then rmatch (LazyStar r) y k else None))"
| "rmatch (Group r) (i, s, cap) k =
     rmatch r (i, s, cap) (\<lambda>(j, s', cap'). k (j, s', Some (take (j - i) s)))"
  by pat_completeness auto
termination
  by (relation "measures [\<lambda>(r, x, k). size r, \<lambda>(r, x, k). length (rest_of x)]") auto

text \<open>\<open>re.exec(s)\<close>: the leftmost match, as the matched text and the group.\<close>

fun exec_from :: "regexp \<Rightarrow> nat \<Rightarrow> string \<Rightarrow> (string \<times> string option) option" where
  "exec_from r i s =
     (case rmatch r (i, s, None) Some of
        Some (j, _, cap) \<Rightarrow> Some (take (j - i) s, cap)
      | None \<Rightarrow> (case s of [] \<Rightarrow> None | _ # xs \<Rightarrow> exec_from r (i + 1) xs))"

declare exec_from.simps [simp del]

definition regexp_exec :: "regexp \<Rightarrow> string \<Rightarrow> (string \<times> string option) option" where
  "regexp_exec r s = exec_from r 0 s"

declare rmatch.simps(7,8) [simp del]

text \<open>A literal text followed by an expression, and \<open>r+?\<close>.\<close>

fun seq_lit :: "string \<Rightarrow> regexp \<Rightarrow> regexp" where
  "seq_lit [] r = r"
| "seq_lit (c # cs) r = Seq (Chr c) (seq_lit cs r)"

definition lazy_plus :: "regexp \<Rightarrow> regexp" where
  "lazy_plus r = Seq r (LazyStar r)"

section \<open>The shortest text before a mark\<close>

fun find_mark :: "string \<Rightarrow> string \<Rightarrow> string option" where
  "find_mark m s =
     (if prefix m s then Some []
      else (case s of [] \<Rightarrow> None | c # cs \<Rightarrow> map_option (Cons c) (find_mark m cs)))"

declare find_mark.simps [simp del]

lemma find_mark_Some:
  "find_mark m s = Some p \<Longrightarrow> prefix (p @ m) s"
proof (induction s arbitrary: p)
  case Nil
  then show ?case
    by (auto simp: find_mark.simps [of m] split: if_splits)
next
  case (Cons c s)
  then show ?case
    by (auto simp: find_mark.simps [of m "c # s"] split: if_splits)
qed

lemma find_mark_append: "\<exists>q. find_mark m (p @ m @ r) = Some q \<and> length q \<le> length p"
proof (induction p)
  case Nil
  then show ?case
    by (subst find_mark.simps) simp
next
  case (Cons c p)
  then show ?case
    by (auto simp: find_mark.simps [of m "c # p @ m @ r"])
qed

text \<open>\<open>find_mark\<close> returns the shortest text before an occurrence of the mark, and finds one
  whenever there is one.\<close>

lemma find_mark_least: "find_mark m s = Some q \<Longrightarrow> prefix (p @ m) s \<Longrightarrow> length q \<le> length p"
  using find_mark_append by (auto simp: prefix_def) (metis option.inject)

lemma find_mark_None: "find_mark m s = None \<longleftrightarrow> \<not> sublist m s"
proof
  assume "find_mark m s = None"
  then show "\<not> sublist m s"
    unfolding sublist_def using find_mark_append by (metis option.distinct(1))
next
  assume "\<not> sublist m s"
  moreover have "find_mark m s = Some p \<Longrightarrow> sublist m s" for p
    using find_mark_Some [of m s p] by (auto simp: prefix_def sublist_def)
  ultimately show "find_mark m s = None"
    by (cases "find_mark m s") auto
qed

text \<open>A mark does not begin inside a text without its first character.\<close>

lemma find_mark_skip:
  "x \<notin> set a \<Longrightarrow> find_mark (x # w) (a @ b) = map_option ((@) a) (find_mark (x # w) b)"
proof (induction a)
  case Nil
  then show ?case
    by (cases "find_mark (x # w) b") auto
next
  case (Cons y a)
  then show ?case
    by (cases "find_mark (x # w) b") (auto simp: find_mark.simps [of _ "y # a @ b"])
qed

lemma find_mark_here: "find_mark m (m @ r) = Some []"
  by (subst find_mark.simps) simp

section \<open>Closed forms\<close>

definition one_line :: "string \<Rightarrow> bool" where
  "one_line s \<longleftrightarrow> list_all (\<lambda>c. \<not> line_terminator c) s"

lemma one_line_simps [simp]:
  "one_line []" "one_line (c # s) \<longleftrightarrow> \<not> line_terminator c \<and> one_line s"
  "one_line (s @ t) \<longleftrightarrow> one_line s \<and> one_line t"
  by (simp_all add: one_line_def)

lemma rmatch_seq_lit:
  "rmatch (seq_lit w r) (i, s, cap) k =
     (if prefix w s then rmatch r (i + length w, drop (length w) s, cap) k else None)"
proof (induction w arbitrary: i s)
  case (Cons c w)
  then show ?case
    by (cases s) auto
qed simp

lemma rmatch_Star_Dot_Eol:
  "rmatch (Star Dot) (i, s, cap) (\<lambda>y. rmatch Eol y k) =
     (if one_line s then k (i + length s, [], cap) else None)"
proof (induction s arbitrary: i)
  case (Cons c s)
  then show ?case
    by (auto simp: rmatch.simps(7) split: option.splits)
qed (simp add: rmatch.simps(7))

definition rest_of_line :: regexp where
  "rest_of_line = Seq (Opt (Chr CHR ''/'')) (Seq (Star Dot) Eol)"

lemma rmatch_rest_of_line [simp]:
  "rmatch rest_of_line (i, s, cap) k = (if one_line s then k (i + length s, [], cap) else None)"
proof -
  have "\<not> line_terminator CHR ''/''"
    by (simp add: line_terminator_def)
  then show ?thesis
    by (cases s) (auto simp: rest_of_line_def rmatch_Star_Dot_Eol split: option.splits)
qed

lemma rmatch_LazyStar_Dot_mark:
  assumes "one_line m"
  shows "rmatch (LazyStar Dot) (i, s, cap)
      (\<lambda>(j, s', cap'). rmatch (seq_lit m rest_of_line) (j, s', f j) Some) =
    (if one_line s then
       (case find_mark m s of None \<Rightarrow> None | Some p \<Rightarrow> Some (i + length s, [], f (i + length p)))
     else None)"
proof (induction s arbitrary: i)
  case Nil
  then show ?case
    by (auto simp: rmatch.simps(8) rmatch_seq_lit find_mark.simps [of m])
next
  case (Cons c s)
  have "one_line (drop (length m) (c # s)) \<longleftrightarrow> one_line (c # s)" if "prefix m (c # s)"
  proof -
    from that obtain r where r: "c # s = m @ r"
      by (auto simp: prefix_def)
    show ?thesis
      unfolding r using assms by simp
  qed
  with Cons prefix_length_le [of m "c # s"] show ?case
    by (simp add: rmatch.simps(8) rmatch_seq_lit find_mark.simps [of m "c # s"] split: option.splits)
qed

text \<open>The expressions \<open>^channels/(.+?)<mark>/?.*$\<close> (\<open>\/?.*$\<close> after the mark).\<close>

definition topic_regexp :: "string \<Rightarrow> regexp" where
  "topic_regexp m =
     Seq Bol (seq_lit ''channels/'' (Seq (Group (lazy_plus Dot)) (seq_lit m rest_of_line)))"

definition topic_match :: "string \<Rightarrow> string \<Rightarrow> string option" where
  "topic_match m s =
     (if prefix ''channels/'' s \<and> one_line s then
        (case drop 9 s of [] \<Rightarrow> None | c # cs \<Rightarrow> map_option (Cons c) (find_mark m cs))
      else None)"

lemma rmatch_group_mark:
  assumes "one_line m"
  shows "rmatch (Seq (Group (lazy_plus Dot)) (seq_lit m rest_of_line)) (i, s, cap) Some =
    (if one_line s then
       (case s of [] \<Rightarrow> None
        | c # cs \<Rightarrow> (case find_mark m cs of None \<Rightarrow> None
            | Some p \<Rightarrow> Some (i + length s, [], Some (c # p))))
     else None)"
proof (cases s)
  case (Cons c cs)
  have take: "take (length p) cs = p" if "find_mark m cs = Some p" for p
    using find_mark_Some [OF that] by (auto simp: prefix_def)
  have "rmatch (Seq (Group (lazy_plus Dot)) (seq_lit m rest_of_line)) (i, s, cap) Some =
      (if line_terminator c then None
       else rmatch (LazyStar Dot) (i + 1, cs, cap)
         (\<lambda>(j, s', cap'). rmatch (seq_lit m rest_of_line) (j, s', Some (take (j - i) s)) Some))"
    by (simp add: lazy_plus_def Cons case_prod_unfold)
  also have "\<dots> = (if line_terminator c then None else if one_line cs then
       (case find_mark m cs of None \<Rightarrow> None
        | Some p \<Rightarrow> Some (i + 1 + length cs, [], Some (take (i + 1 + length p - i) s))) else None)"
    unfolding rmatch_LazyStar_Dot_mark [OF assms] ..
  finally show ?thesis
    using take by (simp add: Cons split: option.splits)
qed (simp add: lazy_plus_def)

lemma channels_prefix:
  assumes "prefix ''channels/'' s"
  obtains t where "s = ''channels/'' @ t" and "drop 9 s = t" and "one_line s \<longleftrightarrow> one_line t"
    and "length s = 9 + length t"
proof -
  obtain t where t: "s = ''channels/'' @ t"
    using assms by (auto simp: prefix_def)
  moreover have "one_line s \<longleftrightarrow> one_line t" "length s = 9 + length t" "drop 9 s = t"
    using t by (simp_all add: line_terminator_def)
  ultimately show ?thesis
    using that by blast
qed

lemma rmatch_topic_regexp:
  assumes "one_line m"
  shows "rmatch (topic_regexp m) (i, s, cap) Some =
    (if i = 0 then map_option (\<lambda>c. (length s, [], Some c)) (topic_match m s) else None)"
proof (cases "i = 0 \<and> prefix ''channels/'' s")
  case True
  then obtain t where t: "drop 9 s = t" "one_line s \<longleftrightarrow> one_line t" "length s = 9 + length t"
    by (blast elim: channels_prefix)
  have len: "length ''channels/'' = 9"
    by simp
  have "rmatch (topic_regexp m) (i, s, cap) Some =
      rmatch (Seq (Group (lazy_plus Dot)) (seq_lit m rest_of_line)) (9, t, cap) Some"
    using True t(1)
    by (simp only: topic_regexp_def rmatch.simps(3) rmatch.simps(5) [of Bol] rmatch_seq_lit len)
       simp
  also have "\<dots> = map_option (\<lambda>c. (length s, [], Some c)) (topic_match m s)"
    unfolding rmatch_group_mark [OF assms] topic_match_def t(1)
    using True t(2,3) by (auto split: list.splits option.splits)
  finally show ?thesis
    using True by simp
next
  case False
  then show ?thesis
    by (auto simp: topic_regexp_def topic_match_def rmatch_seq_lit [of "''channels/''"]
        rmatch.simps(5) [of Bol] simp del: rmatch.simps(5) seq_lit.simps)
qed

lemma exec_from_topic_regexp: "one_line m \<Longrightarrow> 0 < i \<Longrightarrow> exec_from (topic_regexp m) i s = None"
  by (induction s arbitrary: i) (simp_all add: exec_from.simps [of "topic_regexp m"] rmatch_topic_regexp)

text \<open>The leftmost match of the expression is the whole text, with the shortest channel part.\<close>

lemma regexp_exec_topic:
  assumes "one_line m"
  shows "regexp_exec (topic_regexp m) s = map_option (\<lambda>c. (s, Some c)) (topic_match m s)"
  using exec_from_topic_regexp [OF assms, of 1]
  by (auto simp: regexp_exec_def exec_from.simps [of "topic_regexp m" 0] rmatch_topic_regexp [OF assms]
      split: option.splits list.splits)

text \<open>What it means that the expression matches: a one-line text \<open>channels/<c><mark>...\<close> with a
  non-empty \<open>c\<close>, the shortest one.\<close>

lemma topic_match_Some:
  assumes "topic_match m s = Some c"
  shows "c \<noteq> [] \<and> one_line s \<and> prefix (''channels/'' @ c @ m) s"
proof -
  have pre: "prefix ''channels/'' s" "one_line s"
    using assms by (auto simp: topic_match_def split: if_splits)
  then obtain t where t: "s = ''channels/'' @ t" "drop 9 s = t"
    by (blast elim: channels_prefix)
  obtain x xs p where "t = x # xs" "find_mark m xs = Some p" "c = x # p"
    using assms pre t(2) by (auto simp: topic_match_def split: list.splits)
  with find_mark_Some [of m xs p] pre t(1) show ?thesis
    by simp
qed

end
