(* ===== verification/Mqtt_Topics.thy ===== *)
theory Mqtt_Topics
  imports Js_Regex
begin

text \<open>
  The topics of the MQTT adapter \<open>mqtt/aedes/mqtt.js\<close>: \<open>parseTopic\<close> (lines 162 to 172), the part
  of \<open>authorizePublish\<close> that derives the NATS subject, the subtopic and the content type from an
  MQTT topic (lines 175 to 214), and the handler of NATS messages that builds an MQTT topic
  (lines 141 to 160).

  The theorems characterise the channel that \<open>parseTopic\<close> finds, the subjects that a publish
  can reach, and the round trip from a NATS message through its MQTT topic and back.
\<close>

section \<open>The code\<close>

text \<open>The two expressions of \<open>parseTopic\<close>, with the marks \<open>/control\<close> and \<open>/messages\<close>.\<close>

definition control_regexp :: regexp where
  "control_regexp = topic_regexp ''/control''"

definition messages_regexp :: regexp where
  "messages_regexp = topic_regexp ''/messages''"

definition parseTopic :: "string \<Rightarrow> (string \<times> string option) option" where
  "parseTopic topic =
     (if regexp_exec control_regexp topic \<noteq> None then regexp_exec control_regexp topic
      else regexp_exec messages_regexp topic)"

text \<open>\<open>channel[1]\<close> as a string; a group that took no part in the match would print as
  \<open>undefined\<close>.\<close>

definition group1 :: "string \<times> string option \<Rightarrow> string" where
  "group1 m = (case snd m of None \<Rightarrow> ''undefined'' | Some c \<Rightarrow> c)"

datatype pub_error = UnknownTopic | InvalidSubtopic

record pub_plan =
  channelId :: string
  msgtopic :: "string option"
  contentType :: string
  st :: "string list"
  channelTopic :: string

text \<open>Lines 192 to 194: the elements of the subtopic.\<close>

definition subtopic_elements :: "string \<Rightarrow> string list" where
  "subtopic_elements topic =
     filter (\<lambda>value. value \<noteq> [])
       (js_split CHR ''.'' (js_join CHR ''.'' (drop 3 (js_split CHR ''/'' topic))))"

text \<open>The loop of lines 197 to 204: is there an invalid element?\<close>

fun invalid_subtopic :: "string list \<Rightarrow> bool" where
  "invalid_subtopic [] = False"
| "invalid_subtopic (e # es) =
     (if 1 < length e \<and> (js_includes e CHR ''*'' \<or> js_includes e CHR ''>'') then True
      else invalid_subtopic es)"

text \<open>Lines 206 to 212: the content type and the subtopic.\<close>

definition split_content_type :: "string list \<Rightarrow> string \<times> string list" where
  "split_content_type elements =
     (let n = length elements in
      if 1 < n \<and> elements ! (n - 2) = ''ct''
      then (js_replace CHR ''-'' CHR ''+'' (js_replace CHR ''_'' CHR ''/'' (elements ! (n - 1))),
            js_slice elements 0 (n - 2))
      else ([], elements))"

text \<open>The synchronous part of \<open>authorizePublish\<close>, up to the request to the things service.\<close>

definition publish_plan :: "string \<Rightarrow> pub_error + pub_plan" where
  "publish_plan topic =
     (case parseTopic topic of
        None \<Rightarrow> Inl UnknownTopic
      | Some channel \<Rightarrow>
          (let channelId = group1 channel;
               parts = js_split CHR ''/'' topic;
               msgtopic = js_nth (js_slice parts 2 3) 0;
               elements = subtopic_elements topic;
               baseTopic = ''channel.'' @ channelId
           in if invalid_subtopic elements then Inl InvalidSubtopic
              else (let (ct, st) = split_content_type elements
                    in Inr \<lparr> channelId = channelId, msgtopic = msgtopic, contentType = ct, st = st,
                         channelTopic = (if st \<noteq> [] then baseTopic @ ''.'' @ js_join CHR ''.'' st
                                         else baseTopic) \<rparr>)))"

text \<open>The message of \<open>message.proto\<close> and the packet that the NATS handler publishes.\<close>

record message =
  m_channel :: string
  m_topic :: string
  m_subtopic :: string
  m_publisher :: string
  m_devname :: string
  m_protocol :: string
  m_contentType :: string
  m_payload :: string

record packet =
  p_cmd :: string
  p_qos :: nat
  p_topic :: string
  p_payload :: string
  p_retain :: bool

definition mqtt_topic :: "message \<Rightarrow> string" where
  "mqtt_topic m =
     (let subtopic = (if m_subtopic m \<noteq> [] then ''/'' @ js_replace_all CHR ''.'' CHR ''/'' (m_subtopic m) else []);
          ct = (if m_contentType m \<noteq> []
                then ''/ct/'' @ js_replace CHR ''+'' CHR ''-'' (js_replace CHR ''/'' CHR ''_'' (m_contentType m))
                else [])
      in ''channels/'' @ m_channel m @ ''/messages'' @ subtopic @ ct)"

text \<open>The callback of \<open>nats.subscribe\<close> on a decoded message: the packet given to
  \<open>aedes.publish\<close>, if any.\<close>

definition nats_message :: "message \<Rightarrow> packet option" where
  "nats_message m =
     (if m_protocol m \<noteq> ''mqtt''
      then Some \<lparr> p_cmd = ''publish'', p_qos = 2, p_topic = mqtt_topic m, p_payload = m_payload m,
             p_retain = False \<rparr>
      else None)"

section \<open>The channel of a topic\<close>

text \<open>The specification: the shortest non-empty text between \<open>channels/\<close> and the mark.\<close>

definition shortest_channel :: "string \<Rightarrow> string \<Rightarrow> string \<Rightarrow> bool" where
  "shortest_channel m t c \<longleftrightarrow> c \<noteq> [] \<and> prefix (''channels/'' @ c @ m) t \<and>
     (\<forall>c'. c' \<noteq> [] \<longrightarrow> prefix (''channels/'' @ c' @ m) t \<longrightarrow> length c \<le> length c')"

lemma topic_match_least:
  assumes "topic_match m t = Some c" and "c' \<noteq> []" and "prefix (''channels/'' @ c' @ m) t"
  shows "length c \<le> length c'"
proof -
  obtain x xs where c': "c' = x # xs"
    using assms(2) by (cases c') auto
  obtain r where t: "t = ''channels/'' @ x # xs @ m @ r"
    using assms(3) by (auto simp: prefix_def c')
  obtain p where p: "find_mark m (xs @ m @ r) = Some p" "c = x # p"
    using assms(1) by (auto simp: topic_match_def t split: if_splits)
  with find_mark_least [OF p(1), of xs] show ?thesis
    by (simp add: c' prefix_def)
qed

lemma topic_match_ex:
  assumes "one_line t" and "c \<noteq> []" and "prefix (''channels/'' @ c @ m) t"
  shows "\<exists>c'. topic_match m t = Some c'"
proof -
  obtain x xs r where "t = ''channels/'' @ x # xs @ m @ r"
    using assms(2,3) by (cases c) (auto simp: prefix_def)
  with assms(1) find_mark_append [of m xs r] show ?thesis
    by (auto simp: topic_match_def)
qed

lemma same_length_channel:
  assumes "length c = length c'" and "prefix (''channels/'' @ c @ m) t" and "prefix (''channels/'' @ c' @ m) t"
  shows "c = c'"
proof -
  have "length (''channels/'' @ c @ m) = length (''channels/'' @ c' @ m)"
    using assms(1) by simp
  then have "''channels/'' @ c @ m = ''channels/'' @ c' @ m"
    using assms(2,3) by (metis prefix_length_prefix prefix_order.antisym order_refl)
  with assms(1) show ?thesis
    by simp
qed

lemma topic_match_iff: "topic_match m t = Some c \<longleftrightarrow> one_line t \<and> shortest_channel m t c"
proof
  assume "topic_match m t = Some c"
  then show "one_line t \<and> shortest_channel m t c"
    using topic_match_Some topic_match_least unfolding shortest_channel_def by blast
next
  assume c: "one_line t \<and> shortest_channel m t c"
  then obtain c' where c': "topic_match m t = Some c'"
    using topic_match_ex unfolding shortest_channel_def by blast
  with c have "length c = length c'"
    using topic_match_Some [OF c'] topic_match_least [OF c']
    unfolding shortest_channel_def by (blast intro: le_antisym)
  with c c' topic_match_Some [OF c'] have "c = c'"
    unfolding shortest_channel_def by (blast intro: same_length_channel)
  with c' show "topic_match m t = Some c"
    by simp
qed

lemma one_line_marks [simp]: "one_line ''/control''" "one_line ''/messages''" "one_line ''channels/''"
  by (simp_all add: line_terminator_def)

definition topic_channel :: "string \<Rightarrow> string option" where
  "topic_channel t =
     (case topic_match ''/control'' t of Some c \<Rightarrow> Some c | None \<Rightarrow> topic_match ''/messages'' t)"

lemma parseTopic_eq: "parseTopic t = map_option (\<lambda>c. (t, Some c)) (topic_channel t)"
  unfolding parseTopic_def control_regexp_def messages_regexp_def topic_channel_def
  by (simp only: regexp_exec_topic [OF one_line_marks(1)] regexp_exec_topic [OF one_line_marks(2)])
     (simp split: option.splits)

text \<open>
  C15. \<open>parseTopic\<close> matches a topic exactly when it is one line \<open>channels/<c>/control...\<close> or, failing
  that, \<open>channels/<c>/messages...\<close>, and the group is the shortest such non-empty \<open>c\<close>: the
  backtracking engine of the regular expressions computes this specification.
\<close>

theorem parseTopic_spec:
  "parseTopic t = Some g \<longleftrightarrow>
     (\<exists>c. g = (t, Some c) \<and> one_line t \<and>
       (shortest_channel ''/control'' t c \<or>
        (\<forall>c'. \<not> shortest_channel ''/control'' t c') \<and> shortest_channel ''/messages'' t c))"
proof -
  have "topic_channel t = Some c \<longleftrightarrow> one_line t \<and> (shortest_channel ''/control'' t c \<or>
      (\<forall>c'. \<not> shortest_channel ''/control'' t c') \<and> shortest_channel ''/messages'' t c)" for c
  proof (cases "topic_match ''/control'' t")
    case None
    then have "\<not> (one_line t \<and> shortest_channel ''/control'' t c')" for c'
      using topic_match_iff [of "''/control''" t c'] by simp
    then show ?thesis
      using None topic_match_iff [of "''/messages''" t c] by (auto simp: topic_channel_def)
  next
    case (Some c')
    then show ?thesis
      using topic_match_iff [of "''/control''" t c] topic_match_iff [of "''/control''" t c']
      by (auto simp: topic_channel_def)
  qed
  then show ?thesis
    by (auto simp: parseTopic_eq)
qed

lemma group1_parseTopic: "parseTopic t = Some g \<Longrightarrow> topic_channel t = Some (group1 g)"
  by (auto simp: parseTopic_eq group1_def)

lemma topic_channel_Some:
  assumes "topic_channel t = Some c"
  shows "c \<noteq> []" "one_line t"
    "prefix (''channels/'' @ c @ ''/control'') t \<or> prefix (''channels/'' @ c @ ''/messages'') t"
  using assms topic_match_Some [of "''/control''" t c] topic_match_Some [of "''/messages''" t c]
  by (auto simp: topic_channel_def split: option.splits)

lemma topic_match_channels:
  assumes "c \<noteq> []" and "one_line (''channels/'' @ c @ s)"
  shows "topic_match m (''channels/'' @ c @ s) = map_option (Cons (hd c)) (find_mark m (tl c @ s))"
  using assms by (cases c) (auto simp: topic_match_def)

lemma topic_match_plain:
  assumes "c \<noteq> []" "CHR ''/'' \<notin> set c" "one_line (''channels/'' @ c @ (CHR ''/'' # w) @ r)"
  shows "topic_match (CHR ''/'' # w) (''channels/'' @ c @ (CHR ''/'' # w) @ r) = Some c"
proof -
  have c: "CHR ''/'' \<notin> set (tl c)"
    using assms(1,2) by (cases c) auto
  show ?thesis
    unfolding topic_match_channels [OF assms(1,3)] find_mark_skip [OF c] find_mark_here
    using assms(1) by simp
qed

lemma find_mark_control: "find_mark ''/control'' (''/messages'' @ r) = map_option ((@) ''/messages'') (find_mark ''/control'' r)"
proof -
  have "CHR ''/'' \<notin> set ''messages''"
    by simp
  from find_mark_skip [OF this, of "''control''" r] show ?thesis
    by (subst find_mark.simps) (cases "find_mark ''/control'' r"; simp)
qed

lemma topic_match_control:
  assumes "c \<noteq> []" "CHR ''/'' \<notin> set c" "one_line (''channels/'' @ c @ ''/messages'' @ r)"
  shows "topic_match ''/control'' (''channels/'' @ c @ ''/messages'' @ r) =
    map_option (\<lambda>d. c @ ''/messages'' @ d) (find_mark ''/control'' r)"
proof -
  obtain x xs where c: "c = x # xs" "CHR ''/'' \<notin> set xs"
    using assms(1,2) by (cases c) auto
  have "find_mark ''/control'' (xs @ ''/messages'' @ r) =
      map_option ((@) xs) (map_option ((@) ''/messages'') (find_mark ''/control'' r))"
    unfolding find_mark_skip [OF c(2)] find_mark_control ..
  then show ?thesis
    unfolding topic_match_channels [OF assms(1,3)] by (simp add: c(1) option.map_comp comp_def)
qed

lemma topic_channel_messages:
  assumes "c \<noteq> []" "CHR ''/'' \<notin> set c" "one_line c" "one_line r" "\<not> sublist ''/control'' r"
  shows "topic_channel (''channels/'' @ c @ ''/messages'' @ r) = Some c"
  using topic_match_control [OF assms(1,2), of r] topic_match_plain [OF assms(1,2), of "''messages''" r] assms
  by (simp add: topic_channel_def line_terminator_def find_mark_None [THEN iffD2])

text \<open>
  A message topic whose subtopic contains \<open>/control\<close> is not attributed to its channel: for a
  channel \<open>c\<close> without slashes and a subtopic with a level that starts with \<open>control\<close>, the channel
  that \<open>parseTopic\<close> finds is \<open>c/messages...\<close>, which is longer than \<open>c\<close>.
\<close>

theorem parseTopic_control_subtopic:
  assumes "c \<noteq> []" "CHR ''/'' \<notin> set c" "one_line (''channels/'' @ c @ ''/messages'' @ r)" "sublist ''/control'' r"
  shows "\<exists>d. parseTopic (''channels/'' @ c @ ''/messages'' @ r) =
      Some (''channels/'' @ c @ ''/messages'' @ r, Some (c @ ''/messages'' @ d)) \<and>
    prefix (d @ ''/control'') r"
proof -
  obtain d where d: "find_mark ''/control'' r = Some d"
    using assms(4) find_mark_None [of "''/control''" r] by auto
  with topic_match_control [OF assms(1,2,3)] find_mark_Some [OF d] show ?thesis
    by (auto simp: parseTopic_eq topic_channel_def)
qed

theorem parseTopic_control_subtopic_witness:
  "\<exists>d. parseTopic ''channels/7/messages/room/control/fan'' =
      Some (''channels/7/messages/room/control/fan'', Some (''7/messages'' @ d)) \<and>
    prefix (d @ ''/control'') ''/room/control/fan''"
proof -
  have "sublist ''/control'' ''/room/control/fan''"
    unfolding sublist_def by (intro exI [of _ "''/room''"] exI [of _ "''/fan''"]) simp
  then show ?thesis
    using parseTopic_control_subtopic [of "''7''" "''/room/control/fan''"]
    by (simp add: line_terminator_def)
qed

section \<open>The subject of a publish\<close>

lemma subtopic_elements_eq:
  "subtopic_elements t =
     filter (\<lambda>e. e \<noteq> []) (concat (map (js_split CHR ''.'') (drop 3 (js_split CHR ''/'' t))))"
  by (cases "drop 3 (js_split CHR ''/'' t) = []") (simp_all add: subtopic_elements_def js_split_join_concat)

lemma subtopic_elements_parts:
  assumes "e \<in> set (subtopic_elements t)"
  shows "e \<noteq> [] \<and> CHR ''.'' \<notin> set e \<and> CHR ''/'' \<notin> set e"
proof -
  obtain l where l: "l \<in> set (drop 3 (js_split CHR ''/'' t))" "e \<in> set (js_split CHR ''.'' l)" "e \<noteq> []"
    using assms by (auto simp: subtopic_elements_eq)
  then have "CHR ''/'' \<notin> set l"
    by (meson in_set_dropD js_split_parts)
  with l(2,3) show ?thesis
    using js_split_parts by blast
qed

lemma invalid_subtopic_iff:
  "invalid_subtopic es \<longleftrightarrow>
     (\<exists>e\<in>set es. 1 < length e \<and> (CHR ''*'' \<in> set e \<or> CHR ''>'' \<in> set e))"
  by (induction es) (auto simp: js_includes_def)

lemma split_content_type_subset: "split_content_type es = (ct, ss) \<Longrightarrow> set ss \<subseteq> set es"
  by (auto simp: split_content_type_def Let_def js_slice_def split: if_splits dest: in_set_takeD)

lemma publish_plan_InrD:
  assumes "publish_plan t = Inr pl"
  shows "topic_channel t = Some (channelId pl)"
    and "\<not> invalid_subtopic (subtopic_elements t)"
    and "split_content_type (subtopic_elements t) = (contentType pl, st pl)"
    and "channelTopic pl = js_join CHR ''.'' (''channel'' # channelId pl # st pl)"
proof -
  obtain g where g: "parseTopic t = Some g"
    using assms by (auto simp: publish_plan_def split: option.splits)
  obtain ct ss where ss: "split_content_type (subtopic_elements t) = (ct, ss)"
    by fastforce
  have inv: "\<not> invalid_subtopic (subtopic_elements t)"
    using assms g by (auto simp: publish_plan_def Let_def)
  with assms g ss have pl: "channelId pl = group1 g" "contentType pl = ct" "st pl = ss"
    "channelTopic pl = (if ss \<noteq> [] then ''channel.'' @ group1 g @ ''.'' @ js_join CHR ''.'' ss
       else ''channel.'' @ group1 g)"
    by (auto simp: publish_plan_def Let_def)
  show "topic_channel t = Some (channelId pl)" "\<not> invalid_subtopic (subtopic_elements t)"
    "split_content_type (subtopic_elements t) = (contentType pl, st pl)"
    using group1_parseTopic [OF g] inv ss pl by simp_all
  show "channelTopic pl = js_join CHR ''.'' (''channel'' # channelId pl # st pl)"
    using pl by (cases ss) simp_all
qed

text \<open>
  C6. Every publish that passes the checks goes to the subject whose tokens are \<open>channel\<close>, the channel
  of the topic and the subtopic, for a channel without dots: each token of the subtopic is
  non-empty, holds no dot and no slash, and a NATS wildcard only as its one character.
\<close>

theorem publish_plan_subject:
  assumes "publish_plan t = Inr pl" and "CHR ''.'' \<notin> set (channelId pl)"
  shows "js_split CHR ''.'' (channelTopic pl) = ''channel'' # channelId pl # st pl \<and>
    prefix (''channels/'' @ channelId pl @ ''/'') t \<and>
    list_all (\<lambda>e. e \<noteq> [] \<and> CHR ''.'' \<notin> set e \<and> CHR ''/'' \<notin> set e \<and>
      (length e = 1 \<or> CHR ''*'' \<notin> set e \<and> CHR ''>'' \<notin> set e)) (st pl)"
proof (intro conjI)
  note pl = publish_plan_InrD [OF assms(1)]
  have st: "set (st pl) \<subseteq> set (subtopic_elements t)"
    using split_content_type_subset [OF pl(3)] .
  then have parts: "e \<noteq> [] \<and> CHR ''.'' \<notin> set e \<and> CHR ''/'' \<notin> set e" if "e \<in> set (st pl)" for e
    using subtopic_elements_parts that by blast
  have wild: "length e = 1 \<or> CHR ''*'' \<notin> set e \<and> CHR ''>'' \<notin> set e" if "e \<in> set (st pl)" for e
  proof -
    have "e \<in> set (subtopic_elements t)" "0 < length e"
      using that st parts by auto
    with pl(2) show ?thesis
      unfolding invalid_subtopic_iff by (metis One_nat_def Suc_lessI)
  qed
  show "list_all (\<lambda>e. e \<noteq> [] \<and> CHR ''.'' \<notin> set e \<and> CHR ''/'' \<notin> set e \<and>
      (length e = 1 \<or> CHR ''*'' \<notin> set e \<and> CHR ''>'' \<notin> set e)) (st pl)"
    using parts wild by (simp add: list_all_iff)
  show "js_split CHR ''.'' (channelTopic pl) = ''channel'' # channelId pl # st pl"
    unfolding pl(4) using parts assms(2) by (intro js_split_join) auto
  show "prefix (''channels/'' @ channelId pl @ ''/'') t"
    using topic_channel_Some(3) [OF pl(1)] by (auto simp: prefix_def)
qed

section \<open>From a NATS message to an MQTT topic and back\<close>

text \<open>A topic written level by level.\<close>

definition levels :: "string list \<Rightarrow> string" where
  "levels ls = concat (map (Cons CHR ''/'') ls)"

lemma levels_simps [simp]:
  "levels [] = []" "levels (l # ls) = CHR ''/'' # l @ levels ls" "levels (ls @ ks) = levels ls @ levels ks"
  by (simp_all add: levels_def)

lemma levels_join: "ls \<noteq> [] \<Longrightarrow> levels ls = CHR ''/'' # js_join CHR ''/'' ls"
proof (induction ls)
  case (Cons l ls)
  then show ?case
    by (cases ls) auto
qed simp

lemma js_split_levels:
  "CHR ''/'' \<notin> set a \<Longrightarrow> \<forall>l\<in>set ls. CHR ''/'' \<notin> set l \<Longrightarrow> js_split CHR ''/'' (a @ levels ls) = a # ls"
  by (induction ls arbitrary: a) auto

text \<open>A level that a message can carry in its subtopic: no separator, not a wildcard in a longer
  text, and not beginning with \<open>control\<close>.\<close>

definition plain_level :: "string \<Rightarrow> bool" where
  "plain_level l \<longleftrightarrow> l \<noteq> [] \<and> CHR ''.'' \<notin> set l \<and> CHR ''/'' \<notin> set l \<and> one_line l \<and>
     \<not> prefix ''control'' l \<and> (1 < length l \<longrightarrow> CHR ''*'' \<notin> set l \<and> CHR ''>'' \<notin> set l)"

lemma prefix_control_level:
  assumes "CHR ''/'' \<notin> set l" and "prefix ''control'' (l @ levels ls)"
  shows "prefix ''control'' l"
proof (cases ls)
  case (Cons k ks)
  have "takeWhile (\<lambda>c. c \<noteq> CHR ''/'') (l @ levels ls) = l"
    using assms(1) by (subst takeWhile_append2) (auto simp: Cons)
  moreover obtain r where "l @ levels ls = ''control'' @ r"
    using assms(2) by (auto simp: prefix_def)
  ultimately have "l = ''control'' @ takeWhile (\<lambda>c. c \<noteq> CHR ''/'') r"
    by simp
  then show ?thesis
    by (metis prefixI)
qed (use assms in simp)

lemma sublist_control_levels: "\<forall>l\<in>set ls. plain_level l \<Longrightarrow> \<not> sublist ''/control'' (levels ls)"
proof (induction ls)
  case (Cons l ls)
  have l: "CHR ''/'' \<notin> set l" "\<not> prefix ''control'' (l @ levels ls)"
    using Cons.prems prefix_control_level [of l ls] by (auto simp: plain_level_def)
  have "find_mark ''/control'' (levels ls) = None"
    using Cons by (simp add: find_mark_None)
  then have "find_mark ''/control'' (l @ levels ls) = None"
    using find_mark_skip [OF l(1), of "''control''" "levels ls"] by simp
  with l(2) show ?case
    by (simp add: find_mark_None sublist_Cons_right)
qed simp

lemma one_line_levels: "\<forall>l\<in>set ls. plain_level l \<Longrightarrow> one_line (levels ls)"
  by (induction ls) (auto simp: plain_level_def line_terminator_def)

lemma subtopic_elements_levels:
  assumes "CHR ''/'' \<notin> set c" and "\<forall>l\<in>set ls. plain_level l"
  shows "subtopic_elements (''channels/'' @ c @ ''/messages'' @ levels ls) = ls"
    and "js_nth (js_slice (js_split CHR ''/'' (''channels/'' @ c @ ''/messages'' @ levels ls)) 2 3) 0 =
      Some ''messages''"
proof -
  have "''channels/'' @ c @ ''/messages'' @ levels ls = ''channels'' @ levels (c # ''messages'' # ls)"
    by simp
  then have split: "js_split CHR ''/'' (''channels/'' @ c @ ''/messages'' @ levels ls) =
      ''channels'' # c # ''messages'' # ls"
    using js_split_levels [of "''channels''" "c # ''messages'' # ls"] assms
    by (auto simp: plain_level_def)
  show "js_nth (js_slice (js_split CHR ''/'' (''channels/'' @ c @ ''/messages'' @ levels ls)) 2 3) 0 =
      Some ''messages''"
    unfolding split by (simp add: js_nth_def js_slice_def)
  have "concat (map (js_split CHR ''.'') ls) = ls" "filter (\<lambda>e. e \<noteq> []) ls = ls"
    using assms(2) by (induction ls) (auto simp: plain_level_def)
  then show "subtopic_elements (''channels/'' @ c @ ''/messages'' @ levels ls) = ls"
    unfolding subtopic_elements_eq split by simp
qed

lemma publish_plan_levels:
  assumes "c \<noteq> []" "CHR ''/'' \<notin> set c" "one_line c" "\<forall>l\<in>set ls. plain_level l"
    and "split_content_type ls = (ct, ss)"
  shows "publish_plan (''channels/'' @ c @ ''/messages'' @ levels ls) =
    Inr \<lparr> channelId = c, msgtopic = Some ''messages'', contentType = ct, st = ss,
      channelTopic = js_join CHR ''.'' (''channel'' # c # ss) \<rparr>"
proof -
  let ?t = "''channels/'' @ c @ ''/messages'' @ levels ls"
  have "topic_channel ?t = Some c"
    using assms one_line_levels sublist_control_levels by (intro topic_channel_messages) auto
  then have "parseTopic ?t = Some (?t, Some c)"
    by (simp only: parseTopic_eq) simp
  moreover have "\<not> invalid_subtopic ls"
    using assms(4) by (auto simp: invalid_subtopic_iff plain_level_def)
  ultimately show ?thesis
    using subtopic_elements_levels [OF assms(2,4)] assms(5)
    unfolding publish_plan_def Let_def
    by (cases ss) (simp_all only: group1_def option.case snd_conv if_False prod.case not_Cons_self2
        if_True, simp_all)
qed

definition encode_ct :: "string \<Rightarrow> string" where
  "encode_ct x = js_replace CHR ''+'' CHR ''-'' (js_replace CHR ''/'' CHR ''_'' x)"

lemma decode_encode_ct:
  assumes "CHR ''_'' \<notin> set x" and "CHR ''-'' \<notin> set x"
  shows "js_replace CHR ''-'' CHR ''+'' (js_replace CHR ''_'' CHR ''/'' (encode_ct x)) = x"
proof -
  have "js_replace CHR ''_'' CHR ''/'' (encode_ct x) =
      js_replace CHR ''+'' CHR ''-'' (js_replace CHR ''_'' CHR ''/'' (js_replace CHR ''/'' CHR ''_'' x))"
    unfolding encode_ct_def by (rule js_replace_commute) simp
  also have "\<dots> = js_replace CHR ''+'' CHR ''-'' x"
    using assms(1) by (simp add: js_replace_inverse)
  finally show ?thesis
    using assms(2) by (simp add: js_replace_inverse)
qed

text \<open>The messages whose topic can be read back: a channel without slashes, a subtopic of plain
  levels, and a content type without the two characters that stand for the slash and the plus.\<close>

definition wf_message :: "message \<Rightarrow> string list \<Rightarrow> bool" where
  "wf_message m es \<longleftrightarrow>
     m_channel m \<noteq> [] \<and> CHR ''/'' \<notin> set (m_channel m) \<and> one_line (m_channel m) \<and>
     m_subtopic m = js_join CHR ''.'' es \<and> list_all plain_level es \<and>
     (if m_contentType m = [] then \<not> (1 < length es \<and> es ! (length es - 2) = ''ct'')
      else CHR ''_'' \<notin> set (m_contentType m) \<and> CHR ''-'' \<notin> set (m_contentType m) \<and>
        plain_level (encode_ct (m_contentType m)))"

definition message_levels :: "message \<Rightarrow> string list \<Rightarrow> string list" where
  "message_levels m es = es @ (if m_contentType m = [] then [] else [''ct'', encode_ct (m_contentType m)])"

lemma mqtt_topic_levels:
  assumes "wf_message m es"
  shows "mqtt_topic m = ''channels/'' @ m_channel m @ ''/messages'' @ levels (message_levels m es)"
proof -
  have es: "\<forall>e\<in>set es. e \<noteq> [] \<and> CHR ''.'' \<notin> set e" and sub: "m_subtopic m = js_join CHR ''.'' es"
    using assms by (auto simp: wf_message_def list_all_iff plain_level_def)
  have "(if m_subtopic m \<noteq> [] then ''/'' @ js_replace_all CHR ''.'' CHR ''/'' (m_subtopic m) else []) = levels es"
  proof (cases "es = []")
    case False
    have "js_join CHR ''.'' es \<noteq> []"
      using False es by (cases es rule: remdups_adj.cases) auto
    with False es sub show ?thesis
      by (simp add: js_replace_all_join levels_join)
  qed (simp add: sub)
  then show ?thesis
    unfolding mqtt_topic_def Let_def by (simp add: message_levels_def encode_ct_def)
qed

lemma split_content_type_message:
  assumes "wf_message m es"
  shows "split_content_type (message_levels m es) = (m_contentType m, es)"
proof (cases "m_contentType m = []")
  case True
  with assms show ?thesis
    by (auto simp: wf_message_def split_content_type_def message_levels_def Let_def)
next
  case False
  with assms decode_encode_ct [of "m_contentType m"] show ?thesis
    by (simp add: wf_message_def split_content_type_def message_levels_def Let_def nth_append js_slice_def)
qed

lemma plain_message_levels: "wf_message m es \<Longrightarrow> \<forall>l\<in>set (message_levels m es). plain_level l"
  by (auto simp: wf_message_def message_levels_def list_all_iff plain_level_def line_terminator_def
      split: if_splits)

lemma publish_plan_message:
  assumes "wf_message m es"
  shows "publish_plan (mqtt_topic m) =
    Inr \<lparr> channelId = m_channel m, msgtopic = Some ''messages'', contentType = m_contentType m, st = es,
      channelTopic = js_join CHR ''.'' (''channel'' # m_channel m # es) \<rparr>"
  unfolding mqtt_topic_levels [OF assms]
  using assms plain_message_levels [OF assms] split_content_type_message [OF assms]
  by (intro publish_plan_levels) (auto simp: wf_message_def)


definition sample_message :: message where
  "sample_message = \<lparr> m_channel = ''7'', m_topic = ''messages'', m_subtopic = ''room.temp'',
     m_publisher = ''t1'', m_devname = ''dev'', m_protocol = ''http'',
     m_contentType = ''application/senml+json'', m_payload = ''[]'' \<rparr>"

lemma wf_sample_message: "wf_message sample_message [''room'', ''temp'']"
  by (simp add: wf_message_def sample_message_def plain_level_def encode_ct_def line_terminator_def)


theorem publish_plan_subject_witness:
  "\<exists>pl. publish_plan (mqtt_topic sample_message) = Inr pl \<and>
    js_split CHR ''.'' (channelTopic pl) = [''channel'', ''7'', ''room'', ''temp'']"
  using publish_plan_subject [OF publish_plan_message [OF wf_sample_message]]
    publish_plan_message [OF wf_sample_message]
  by (simp add: sample_message_def)

end
