(* ===== verification/Adapter.thy ===== *)
theory Adapter
  imports Mqtt_Topics Adapter_Config Things_Api
begin

text \<open>
  The handlers of the MQTT adapter \<open>mqtt/aedes/mqtt.js\<close> (lines 141 to 320): what the broker
  calls to authenticate a client and to authorise its packets, the callbacks of the things
  service, the callback of the NATS subscription and the connection events.

  A handler runs to its end and changes the state of the adapter: the clients, the requests to
  the things service that have not been answered, and the list of what the adapter has done. A
  handler that waits for the things service leaves a request with what its callback needs, so
  that everything can happen between the request and the callback, as in the event loop.
  The encoder and the decoder of \<open>message.proto\<close> are the parameters \<open>encode\<close> and \<open>decode\<close> (a
  message whose bytes cannot be decoded makes the callback throw, \<open>None\<close>), and \<open>now\<close> is the
  clock in milliseconds.
\<close>

section \<open>State\<close>

text \<open>The fields of a client that the adapter uses; \<open>None\<close> is \<open>undefined\<close> or \<open>null\<close>.\<close>

record client =
  thingId :: "string option"
  client_id :: string
  password :: "string option"

record subscription =
  s_topic :: string
  s_qos :: nat

text \<open>A request to the things service with its callback: the client, and what the closure holds.\<close>

datatype call =
    PublishCall nat string pub_plan string
  | SubscribeCall nat string string subscription
  | IdentifyCall nat string

datatype cb_error = Refused pub_error | Status grpc_status

datatype log_arg = Text "string option" | MessageOf grpc_status | ErrorOf pub_error | Bytes string

record conn_event =
  e_stream :: string
  e_thing_id :: "string option"
  e_timestamp :: int
  e_type :: string
  e_instance :: string

text \<open>What the adapter does: log, answer the broker's callback with the number of its handler, publish
  to NATS or to the broker, append to the event stream, and throw out of a callback.\<close>

datatype action =
    Warn string "log_arg list"
  | Info string "log_arg list"
  | PublishCb nat "cb_error option"
  | SubscribeCb nat "cb_error option" "subscription option"
  | Acknowledge nat "(grpc_status \<times> nat) option" bool
  | NatsPublish string string
  | AedesPublish packet
  | XAdd conn_event
  | Throw

record adapter =
  clients :: "nat \<Rightarrow> client"
  calls :: "nat \<Rightarrow> call option"
  next_call :: nat
  trace :: "action list"

definition emit :: "action list \<Rightarrow> adapter \<Rightarrow> adapter" where
  "emit os a = a\<lparr>trace := trace a @ os\<rparr>"

text \<open>A request is sent: its number is that of the handler.\<close>

definition send :: "call \<Rightarrow> adapter \<Rightarrow> adapter" where
  "send c a = a\<lparr>calls := (calls a)(next_call a \<mapsto> c), next_call := Suc (next_call a)\<rparr>"

text \<open>A handler answers at once, without a request.\<close>

definition answer :: "action list \<Rightarrow> adapter \<Rightarrow> adapter" where
  "answer os a = emit os (a\<lparr>next_call := Suc (next_call a)\<rparr>)"

text \<open>A text field that is \<open>null\<close> or \<open>undefined\<close> is the empty text in a proto3 message.\<close>

definition proto_text :: "string option \<Rightarrow> string" where
  "proto_text v = (case v of None \<Rightarrow> [] | Some s \<Rightarrow> s)"

section \<open>Publishing\<close>

definition authorizePublish :: "nat \<Rightarrow> string \<Rightarrow> string \<Rightarrow> adapter \<Rightarrow> adapter" where
  "authorizePublish cl topic payload a =
     (case publish_plan topic of
        Inl err \<Rightarrow>
          answer [Warn [] [ErrorOf err], PublishCb (next_call a) (Some (Refused err))] a
      | Inr pl \<Rightarrow>
          send (PublishCall cl (proto_text (password (clients a cl))) pl payload) a)"

text \<open>The message of \<open>onAuthorize\<close>: publisher and device name are those of the client when the
  callback runs.\<close>

definition published_message :: "client \<Rightarrow> pub_plan \<Rightarrow> string \<Rightarrow> message" where
  "published_message client pl payload =
     \<lparr> m_channel = channelId pl, m_topic = proto_text (msgtopic pl), m_subtopic = js_join CHR ''.'' (st pl),
       m_publisher = proto_text (thingId client), m_devname = client_id client, m_protocol = ''mqtt'',
       m_contentType = contentType pl, m_payload = payload \<rparr>"

definition onAuthorize_publish ::
  "(message \<Rightarrow> string) \<Rightarrow> nat \<Rightarrow> nat \<Rightarrow> pub_plan \<Rightarrow> string \<Rightarrow> grpc_status + string \<Rightarrow> adapter \<Rightarrow> adapter" where
  "onAuthorize_publish encode n cl pl payload res a =
     (case res of
        Inr _ \<Rightarrow>
          (let msg = encode (published_message (clients a cl) pl payload)
           in emit [Warn [] [Bytes msg], NatsPublish (channelTopic pl) msg, PublishCb n None] a)
      | Inl err \<Rightarrow>
          emit [Warn ''unauthorized publish: %s'' [MessageOf err], PublishCb n (Some (Status err))] a)"

section \<open>Subscribing\<close>

definition authorizeSubscribe :: "nat \<Rightarrow> subscription \<Rightarrow> adapter \<Rightarrow> adapter" where
  "authorizeSubscribe cl pkt a =
     (case parseTopic (s_topic pkt) of
        None \<Rightarrow>
          answer [Warn ''unknown topic'' [],
            SubscribeCb (next_call a) (Some (Refused UnknownTopic)) None] a
      | Some channel \<Rightarrow>
          send (SubscribeCall cl (proto_text (password (clients a cl))) (group1 channel) pkt) a)"

definition onAuthorize_subscribe :: "nat \<Rightarrow> subscription \<Rightarrow> grpc_status + string \<Rightarrow> adapter \<Rightarrow> adapter" where
  "onAuthorize_subscribe n pkt res a =
     (case res of
        Inr _ \<Rightarrow> emit [SubscribeCb n None (Some pkt)] a
      | Inl err \<Rightarrow>
          emit [Warn ''unauthorized subscribe: %s'' [MessageOf err], SubscribeCb n (Some (Status err)) None] a)"

section \<open>Connections\<close>

text \<open>\<open>Math.round((new Date()).getTime() / 1000)\<close>: to the nearest second, halves up.\<close>

definition timestamp :: "int \<Rightarrow> int" where
  "timestamp now = (now + 500) div 1000"

definition publishConnEvent :: "config \<Rightarrow> int \<Rightarrow> string option \<Rightarrow> string \<Rightarrow> action" where
  "publishConnEvent cfg now ident type =
     XAdd \<lparr> e_stream = event_stream cfg, e_thing_id = ident, e_timestamp = timestamp now, e_type = type,
       e_instance = instance_id cfg \<rparr>"

text \<open>The callback of \<open>xadd\<close>.\<close>

definition onPublish :: "string option \<Rightarrow> adapter \<Rightarrow> adapter" where
  "onPublish err a = (case err of None \<Rightarrow> a | Some e \<Rightarrow> emit [Warn ''event publish failed: %s'' [Text (Some e)]] a)"

definition authenticate_client :: "nat \<Rightarrow> string option \<Rightarrow> adapter \<Rightarrow> adapter" where
  "authenticate_client cl pwd a = send (IdentifyCall cl (js_or pwd [])) a"

definition onIdentify :: "config \<Rightarrow> int \<Rightarrow> nat \<Rightarrow> nat \<Rightarrow> string \<Rightarrow> grpc_status + string \<Rightarrow> adapter \<Rightarrow> adapter" where
  "onIdentify cfg now n cl pass res a =
     (case res of
        Inr v \<Rightarrow>
          (let c = clients a cl;
               c = c\<lparr>thingId := Some v\<rparr>;
               c = c\<lparr>client_id := (if client_id c \<noteq> [] then client_id c else v)\<rparr>;
               c = c\<lparr>password := Some pass\<rparr>
           in emit [Acknowledge n None True, publishConnEvent cfg now (thingId c) ''connect'']
                (a\<lparr>clients := (clients a)(cl := c)\<rparr>))
      | Inl err \<Rightarrow>
          emit [Warn ''failed to authenticate client with key %s'' [Text (Some pass)],
            Acknowledge n (Some (err, 4)) False] a)"

definition clientDisconnect :: "config \<Rightarrow> int \<Rightarrow> nat \<Rightarrow> adapter \<Rightarrow> adapter" where
  "clientDisconnect cfg now cl a =
     (let c = clients a cl in
      emit [Info ''disconnect client %s'' [Text (Some (client_id c))],
            publishConnEvent cfg now (thingId c) ''disconnect'']
        (a\<lparr>clients := (clients a)(cl := c\<lparr>password := None\<rparr>)\<rparr>))"

definition clientError :: "nat \<Rightarrow> string \<Rightarrow> adapter \<Rightarrow> adapter" where
  "clientError cl err a =
     emit [Warn ''client error: client: %s, error: %s'' [Text (Some (client_id (clients a cl))), Text (Some err)]] a"

definition connectionError :: "nat \<Rightarrow> string \<Rightarrow> adapter \<Rightarrow> adapter" where
  "connectionError cl err a =
     emit [Warn ''connection error: client: %s, error: %s'' [Text (Some (client_id (clients a cl))), Text (Some err)]] a"

definition aedesError :: "string \<Rightarrow> adapter \<Rightarrow> adapter" where
  "aedesError err a = emit [Warn ''aedes error: %s'' [Text (Some err)]] a"

text \<open>The error event of the client of the event store.\<close>

definition esclientError :: "string \<Rightarrow> adapter \<Rightarrow> adapter" where
  "esclientError err a = emit [Warn ''error on redis connection: %s'' [Text (Some err)]] a"

section \<open>Replies and NATS messages\<close>

text \<open>The callback of a request runs once: the request is gone.\<close>

definition on_reply ::
  "(message \<Rightarrow> string) \<Rightarrow> config \<Rightarrow> int \<Rightarrow> nat \<Rightarrow> grpc_status + string \<Rightarrow> adapter \<Rightarrow> adapter" where
  "on_reply encode cfg now n res a =
     (let a' = a\<lparr>calls := (calls a)(n := None)\<rparr> in
      case calls a n of
        None \<Rightarrow> a
      | Some (PublishCall cl token pl payload) \<Rightarrow> onAuthorize_publish encode n cl pl payload res a'
      | Some (SubscribeCall cl token chan pkt) \<Rightarrow> onAuthorize_subscribe n pkt res a'
      | Some (IdentifyCall cl pass) \<Rightarrow> onIdentify cfg now n cl pass res a')"

definition on_nats :: "(string \<Rightarrow> message option) \<Rightarrow> string \<Rightarrow> adapter \<Rightarrow> adapter" where
  "on_nats decode msg a =
     (case decode msg of
        None \<Rightarrow> emit [Throw] a
      | Some m \<Rightarrow> (case nats_message m of None \<Rightarrow> a | Some pkt \<Rightarrow> emit [AedesPublish pkt] a))"

definition new_adapter :: adapter where
  "new_adapter = \<lparr> clients = (\<lambda>_. \<lparr> thingId = None, client_id = [], password = None \<rparr>),
     calls = (\<lambda>_. None), next_call = 0, trace = [] \<rparr>"

section \<open>Properties of the handlers\<close>

lemmas handler_defs = authorizePublish_def authorizeSubscribe_def authenticate_client_def
  onAuthorize_publish_def onAuthorize_subscribe_def onIdentify_def clientDisconnect_def
  clientError_def connectionError_def aedesError_def esclientError_def onPublish_def
  publishConnEvent_def on_nats_def

lemma emit_simps [simp]:
  "clients (emit os a) = clients a" "calls (emit os a) = calls a" "next_call (emit os a) = next_call a"
  "trace (emit os a) = trace a @ os"
  by (simp_all add: emit_def)

lemma send_simps [simp]:
  "clients (send c a) = clients a" "calls (send c a) = (calls a)(next_call a \<mapsto> c)"
  "next_call (send c a) = Suc (next_call a)" "trace (send c a) = trace a"
  by (simp_all add: send_def)

lemma answer_simps [simp]:
  "clients (answer os a) = clients a" "calls (answer os a) = calls a"
  "next_call (answer os a) = Suc (next_call a)" "trace (answer os a) = trace a @ os"
  by (simp_all add: answer_def)

text \<open>The subject of a published message is written from the message alone: the channel, and the
  subtopic if there is one.\<close>

definition subject_of :: "message \<Rightarrow> string" where
  "subject_of m = ''channel.'' @ m_channel m @ (if m_subtopic m = [] then [] else CHR ''.'' # m_subtopic m)"

lemma js_join_Nil_iff: "\<forall>p\<in>set ps. p \<noteq> [] \<Longrightarrow> js_join d ps = [] \<longleftrightarrow> ps = []"
  by (cases ps; cases "tl ps = []") (auto simp: js_join_Cons)

lemma publish_plan_st_nonempty:
  assumes "publish_plan t = Inr pl"
  shows "\<forall>e\<in>set (st pl). e \<noteq> []"
proof -
  have "set (st pl) \<subseteq> set (subtopic_elements t)"
    using split_content_type_subset [OF publish_plan_InrD(3) [OF assms]] .
  then show ?thesis
    using subtopic_elements_parts by blast
qed

lemma channelTopic_subject:
  assumes "publish_plan t = Inr pl"
  shows "channelTopic pl = subject_of (published_message c pl payload)"
  using publish_plan_InrD(4) [OF assms] publish_plan_st_nonempty [OF assms]
  by (cases "st pl = []") (simp_all add: subject_of_def published_message_def js_join_Nil_iff js_join_Cons)

text \<open>
  C26. What the adapter publishes to NATS for a granted MQTT packet is one message, sent before the
  broker is told to go on, on the subject \<open>channel.<id>[.<subtopic>]\<close> that the message itself
  describes, with the protocol \<open>mqtt\<close>, the payload of the packet and the thing of the client as its
  publisher.
\<close>

theorem granted_publish_message:
  assumes "publish_plan topic = Inr pl"
  shows "(let a' = on_reply encode cfg now (next_call a) (Inr t) (authorizePublish cl topic payload a);
       m = published_message (clients a cl) pl payload
     in (\<exists>log. trace a' = trace a @ [log, NatsPublish (subject_of m) (encode m), PublishCb (next_call a) None]) \<and>
        clients a' = clients a \<and> m_protocol m = ''mqtt'' \<and> m_payload m = payload \<and>
        m_publisher m = proto_text (thingId (clients a cl)) \<and> topic_channel topic = Some (m_channel m))"
  using publish_plan_InrD(1) [OF assms] channelTopic_subject [OF assms, of "clients a cl" payload]
  by (simp add: Let_def on_reply_def authorizePublish_def assms onAuthorize_publish_def
      published_message_def)

text \<open>
  The adapter never sends its own messages back to the broker: given a decoder that inverts the
  encoder, a message that the adapter published is ignored by the NATS callback of every instance.
\<close>

theorem no_echo:
  assumes "\<And>m. decode (encode m) = Some m"
  shows "on_nats decode (encode (published_message c pl payload)) a = a"
  by (simp add: on_nats_def assms nats_message_def published_message_def)

text \<open>
  The time of a connection event is the clock rounded to the nearest second: it is at most half a
  second late and less than half a second early.
\<close>

theorem timestamp_nearest:
  "1000 * timestamp now - now \<le> 500 \<and> now - 1000 * timestamp now < 500"
proof -
  have "now + 500 = 1000 * ((now + 500) div 1000) + (now + 500) mod 1000"
    by simp
  moreover have "0 \<le> (now + 500) mod 1000" "(now + 500) mod 1000 < 1000"
    by simp_all
  ultimately show ?thesis
    unfolding timestamp_def by linarith
qed

section \<open>Examples\<close>

text \<open>An encoding of messages in texts: each field after its length in unary.\<close>

definition encode_field :: "string \<Rightarrow> string" where
  "encode_field f = replicate (length f) CHR ''1'' @ CHR ''0'' # f"

definition decode_field :: "string \<Rightarrow> (string \<times> string) option" where
  "decode_field s =
     (let n = length (takeWhile (\<lambda>c. c = CHR ''1'') s); r = drop (Suc n) s
      in if n < length s \<and> s ! n = CHR ''0'' \<and> n \<le> length r then Some (take n r, drop n r) else None)"

fun decode_fields :: "nat \<Rightarrow> string \<Rightarrow> string list option" where
  "decode_fields 0 s = (if s = [] then Some [] else None)"
| "decode_fields (Suc n) s =
     (case decode_field s of None \<Rightarrow> None | Some (f, r) \<Rightarrow> map_option (Cons f) (decode_fields n r))"

definition sample_encode :: "message \<Rightarrow> string" where
  "sample_encode m = concat (map encode_field [m_channel m, m_topic m, m_subtopic m, m_publisher m, m_devname m,
     m_protocol m, m_contentType m, m_payload m])"

definition sample_decode :: "string \<Rightarrow> message option" where
  "sample_decode s =
     (case decode_fields 8 s of
        Some [a, b, c, d, e, f, g, h] \<Rightarrow>
          Some \<lparr> m_channel = a, m_topic = b, m_subtopic = c, m_publisher = d, m_devname = e, m_protocol = f,
            m_contentType = g, m_payload = h \<rparr>
      | _ \<Rightarrow> None)"

lemma decode_encode_field [simp]: "decode_field (encode_field f @ r) = Some (f, r)"
proof -
  have "takeWhile (\<lambda>c. c = CHR ''1'') (replicate n CHR ''1'' @ CHR ''0'' # x) = replicate n CHR ''1''" for n x
    by (induction n) simp_all
  then have "takeWhile (\<lambda>c. c = CHR ''1'') (encode_field f @ r) = replicate (length f) CHR ''1''"
    by (simp add: encode_field_def)
  then show ?thesis
    by (simp add: decode_field_def encode_field_def nth_append)
qed

lemma decode_encode_fields: "decode_fields (length fs) (concat (map encode_field fs)) = Some fs"
  by (induction fs) simp_all

lemma sample_decode_encode: "sample_decode (sample_encode m) = Some m"
  using decode_encode_fields [of "[m_channel m, m_topic m, m_subtopic m, m_publisher m, m_devname m,
     m_protocol m, m_contentType m, m_payload m]"]
  by (simp add: sample_decode_def sample_encode_def numeral_eq_Suc del: decode_fields.simps)

text \<open>An adapter with one client of the thing \<open>t1\<close>.\<close>

definition sample_client :: client where
  "sample_client = \<lparr> thingId = Some ''t1'', client_id = ''dev'', password = Some ''k1'' \<rparr>"

definition sample_adapter :: adapter where
  "sample_adapter = new_adapter\<lparr>clients := (clients new_adapter)(1 := sample_client)\<rparr>"

theorem granted_publish_message_witness:
  "\<exists>pl log. publish_plan (mqtt_topic sample_message) = Inr pl \<and>
     trace (on_reply sample_encode (read_config sample_env None) 0 0 (Inr ''t1'')
       (authorizePublish 1 (mqtt_topic sample_message) ''21'' sample_adapter)) =
       [log, NatsPublish ''channel.7.room.temp'' (sample_encode (published_message sample_client pl ''21'')), PublishCb 0 None]"
proof -
  obtain pl where pl: "publish_plan (mqtt_topic sample_message) = Inr pl" "channelId pl = ''7''"
    "st pl = [''room'', ''temp'']"
    using publish_plan_message [OF wf_sample_message] by (simp add: sample_message_def)
  then have "subject_of (published_message sample_client pl ''21'') = ''channel.7.room.temp''"
    by (simp add: subject_of_def published_message_def)
  with granted_publish_message [OF pl(1), of sample_encode "read_config sample_env None" 0 sample_adapter "''t1''" 1 "''21''"] pl(1)
  show ?thesis
    by (auto simp: Let_def sample_adapter_def new_adapter_def)
qed

theorem no_echo_witness:
  "on_nats sample_decode (sample_encode (published_message sample_client
     \<lparr> channelId = ''7'', msgtopic = Some ''messages'', contentType = [], st = [], channelTopic = ''channel.7'' \<rparr> ''21''))
     sample_adapter = sample_adapter"
  by (rule no_echo [OF sample_decode_encode])

end
