(* ===== verification/Adapter_System.thy ===== *)
theory Adapter_System
  imports Adapter
begin

text \<open>
  The adapter in its surroundings, as a step relation: the broker calls the handlers, the things
  service answers the requests in any order and may fail to, its callbacks run at any later time,
  NATS delivers messages, and the users change the things service between any two of these steps.

  The broker is bound only by the order of the MQTT protocol, kept as the phase of each client: one
  authentication per connection, packets only of an accepted client. The answers of the service
  are recorded with the state of the service that gave them, so that the theorems can say when
  access was granted. They are proved once for every service that keeps the laws of the interface.
\<close>

section \<open>The steps\<close>

datatype phase = Fresh | Authenticating | Connected | Closed

record 's system =
  adp :: adapter
  svc :: 's
  replies :: "nat \<Rightarrow> (grpc_status + string) option"
  phases :: "nat \<Rightarrow> phase"
  granted :: "('s \<times> nat \<times> nat \<times> string \<times> string \<times> string) list"
  identified :: "('s \<times> nat \<times> string \<times> string) list"

text \<open>The service answers a request.\<close>

fun serve ::
  "(string \<Rightarrow> string \<Rightarrow> 's \<Rightarrow> (grpc_status + string) \<times> 's) \<Rightarrow> (string \<Rightarrow> 's \<Rightarrow> (grpc_status + string) \<times> 's) \<Rightarrow>
   nat \<Rightarrow> call \<Rightarrow> 's system \<Rightarrow> 's system" where
  "serve can_access identify n (PublishCall cl token pl payload) x =
     (let (r, s) = can_access token (channelId pl) (svc x)
      in x\<lparr>svc := s, replies := (replies x)(n \<mapsto> r),
           granted := granted x @ (case r of Inr t \<Rightarrow> [(svc x, n, cl, token, channelId pl, t)] | Inl _ \<Rightarrow> [])\<rparr>)"
| "serve can_access identify n (SubscribeCall cl token chan pkt) x =
     (let (r, s) = can_access token chan (svc x)
      in x\<lparr>svc := s, replies := (replies x)(n \<mapsto> r),
           granted := granted x @ (case r of Inr t \<Rightarrow> [(svc x, n, cl, token, chan, t)] | Inl _ \<Rightarrow> [])\<rparr>)"
| "serve can_access identify n (IdentifyCall cl pass) x =
     (let (r, s) = identify pass (svc x)
      in x\<lparr>svc := s, replies := (replies x)(n \<mapsto> r),
           identified := identified x @ (case r of Inr t \<Rightarrow> [(svc x, cl, pass, t)] | Inl _ \<Rightarrow> [])\<rparr>)"

text \<open>The phase of a client after a callback: the acknowledgement accepts or closes it.\<close>

definition phase_after :: "call \<Rightarrow> grpc_status + string \<Rightarrow> (nat \<Rightarrow> phase) \<Rightarrow> nat \<Rightarrow> phase" where
  "phase_after c r ph =
     (case c of
        IdentifyCall cl pass \<Rightarrow>
          (if ph cl = Authenticating then ph(cl := (case r of Inr _ \<Rightarrow> Connected | Inl _ \<Rightarrow> Closed)) else ph)
      | _ \<Rightarrow> ph)"

text \<open>The broker names a client before it asks to authenticate it.\<close>

definition named_client :: "nat \<Rightarrow> string \<Rightarrow> adapter \<Rightarrow> adapter" where
  "named_client cl ident a = a\<lparr>clients := (clients a)(cl := (clients a cl)\<lparr>client_id := ident\<rparr>)\<rparr>"

inductive sys_step ::
  "(string \<Rightarrow> string \<Rightarrow> 's \<Rightarrow> (grpc_status + string) \<times> 's) \<Rightarrow> (string \<Rightarrow> 's \<Rightarrow> (grpc_status + string) \<times> 's) \<Rightarrow>
   ('s \<Rightarrow> 's \<Rightarrow> bool) \<Rightarrow> (message \<Rightarrow> string) \<Rightarrow> (string \<Rightarrow> message option) \<Rightarrow> config \<Rightarrow> 's system \<Rightarrow> 's system \<Rightarrow> bool"
  for can_access identify admin encode decode cfg where
  authenticate: "phases x cl = Fresh \<Longrightarrow>
    sys_step can_access identify admin encode decode cfg x
      (x\<lparr>adp := authenticate_client cl pwd (named_client cl ident (adp x)), phases := (phases x)(cl := Authenticating)\<rparr>)"
| publish: "phases x cl = Connected \<Longrightarrow>
    sys_step can_access identify admin encode decode cfg x (x\<lparr>adp := authorizePublish cl topic payload (adp x)\<rparr>)"
| subscribe: "phases x cl = Connected \<Longrightarrow>
    sys_step can_access identify admin encode decode cfg x (x\<lparr>adp := authorizeSubscribe cl pkt (adp x)\<rparr>)"
| disconnect: "phases x cl \<in> {Authenticating, Connected} \<Longrightarrow>
    sys_step can_access identify admin encode decode cfg x
      (x\<lparr>adp := clientDisconnect cfg now cl (adp x), phases := (phases x)(cl := Closed)\<rparr>)"
| serve: "calls (adp x) n = Some c \<Longrightarrow> replies x n = None \<Longrightarrow>
    sys_step can_access identify admin encode decode cfg x (serve can_access identify n c x)"
| fail: "calls (adp x) n = Some c \<Longrightarrow> replies x n = None \<Longrightarrow>
    sys_step can_access identify admin encode decode cfg x (x\<lparr>replies := (replies x)(n \<mapsto> Inl Unavailable)\<rparr>)"
| reply: "calls (adp x) n = Some c \<Longrightarrow> replies x n = Some r \<Longrightarrow>
    sys_step can_access identify admin encode decode cfg x
      (x\<lparr>adp := on_reply encode cfg now n r (adp x), phases := phase_after c r (phases x)\<rparr>)"
| nats: "sys_step can_access identify admin encode decode cfg x (x\<lparr>adp := on_nats decode msg (adp x)\<rparr>)"
| users: "admin (svc x) s \<Longrightarrow> sys_step can_access identify admin encode decode cfg x (x\<lparr>svc := s\<rparr>)"
| logging: "a \<in> {clientError cl err (adp x), connectionError cl err (adp x), aedesError err (adp x),
      esclientError err (adp x), onPublish e (adp x)} \<Longrightarrow>
    sys_step can_access identify admin encode decode cfg x (x\<lparr>adp := a\<rparr>)"

definition new_system :: "'s \<Rightarrow> 's system" where
  "new_system s = \<lparr> adp = new_adapter, svc = s, replies = (\<lambda>_. None), phases = (\<lambda>_. Fresh), granted = [], identified = [] \<rparr>"

section \<open>Every handler is answered once\<close>

fun answers_to :: "nat \<Rightarrow> action \<Rightarrow> bool" where
  "answers_to n (PublishCb m e) = (m = n)"
| "answers_to n (SubscribeCb m e p) = (m = n)"
| "answers_to n (Acknowledge m e b) = (m = n)"
| "answers_to n _ = False"

definition answer_count :: "nat \<Rightarrow> adapter \<Rightarrow> nat" where
  "answer_count n a = length (filter (answers_to n) (trace a))"

definition answered_inv :: "adapter \<Rightarrow> bool" where
  "answered_inv a \<longleftrightarrow>
     (\<forall>n. answer_count n a + (if calls a n = None then 0 else 1) = (if n < next_call a then 1 else 0))"

lemma answered_invD:
  "answered_inv a \<Longrightarrow> answer_count n a + (if calls a n = None then 0 else 1) = (if n < next_call a then 1 else 0)"
  by (simp add: answered_inv_def)

lemma answered_extend:
  assumes "answered_inv a" and "trace b = trace a @ os"
    and "\<And>n. length (filter (answers_to n) os) + (if calls b n = None then 0 else 1) + (if n < next_call a then 1 else 0) =
      (if calls a n = None then 0 else 1) + (if n < next_call b then 1 else 0 :: nat)"
  shows "answered_inv b"
  unfolding answered_inv_def
proof
  fix n
  have "answer_count n b = answer_count n a + length (filter (answers_to n) os)"
    by (simp add: answer_count_def assms(2))
  with answered_invD [OF assms(1), of n] assms(3) [of n]
  show "answer_count n b + (if calls b n = None then 0 else 1) = (if n < next_call b then 1 else 0)"
    by linarith
qed

lemma answered_emit: "answered_inv a \<Longrightarrow> \<forall>act\<in>set os. \<forall>n. \<not> answers_to n act \<Longrightarrow> answered_inv (emit os a)"
  by (rule answered_extend) (auto simp: filter_False)

lemma answered_fresh: "answered_inv a \<Longrightarrow> calls a (next_call a) = None"
  using answered_invD [of a "next_call a"] by (simp split: if_splits)

lemma answered_send: "answered_inv a \<Longrightarrow> answered_inv (send c a)"
  by (rule answered_extend [where os = "[]"]) (auto simp: answered_fresh less_Suc_eq)

lemma answered_answer:
  assumes "answered_inv a" and "\<And>n. length (filter (answers_to n) os) = (if n = next_call a then 1 else 0)"
  shows "answered_inv (answer os a)"
proof (rule answered_extend [OF assms(1)])
  show "length (filter (answers_to n) os) + (if calls (answer os a) n = None then 0 else 1) + (if n < next_call a then 1 else 0) =
      (if calls a n = None then 0 else 1) + (if n < next_call (answer os a) then 1 else 0)" for n
    unfolding assms(2) by auto
qed simp

lemma answered_cong:
  "calls b = calls a \<Longrightarrow> next_call b = next_call a \<Longrightarrow> trace b = trace a \<Longrightarrow> answered_inv b = answered_inv a"
  by (simp add: answered_inv_def answer_count_def)

lemma on_reply_trace:
  assumes "calls a n = Some c"
  shows "\<exists>os. trace (on_reply encode cfg now n r a) = trace a @ os \<and>
     (\<forall>m. length (filter (answers_to m) os) = (if m = n then 1 else 0)) \<and>
     calls (on_reply encode cfg now n r a) = (calls a)(n := None) \<and>
     next_call (on_reply encode cfg now n r a) = next_call a"
  using assms by (cases c; cases r) (auto simp: on_reply_def handler_defs Let_def)

lemma answered_on_reply:
  assumes "answered_inv a" "calls a n = Some c"
  shows "answered_inv (on_reply encode cfg now n r a)"
proof -
  obtain os where os: "trace (on_reply encode cfg now n r a) = trace a @ os"
    "\<And>m. length (filter (answers_to m) os) = (if m = n then 1 else 0)"
    "calls (on_reply encode cfg now n r a) = (calls a)(n := None)"
    "next_call (on_reply encode cfg now n r a) = next_call a"
    using on_reply_trace [OF assms(2)] by metis
  show ?thesis
    using assms(1) os(1) by (rule answered_extend) (use assms(2) in \<open>auto simp: os\<close>)
qed

lemma answered_on_nats: "answered_inv a \<Longrightarrow> answered_inv (on_nats decode msg a)"
  by (auto simp: on_nats_def answered_emit split: option.splits)

lemma serve_adp [simp]: "adp (serve can_access identify n c x) = adp x" "phases (serve can_access identify n c x) = phases x"
  by (cases c; simp add: Let_def split: prod.splits)+

lemma answered_step:
  assumes "sys_step can_access identify admin encode decode cfg x y" and inv: "answered_inv (adp x)"
  shows "answered_inv (adp y)"
  using assms(1)
proof cases
  case (authenticate cl pwd ident)
  have "answered_inv (named_client cl ident (adp x))"
    using inv answered_cong [of "named_client cl ident (adp x)" "adp x"] by (simp add: named_client_def)
  then show ?thesis
    by (simp add: authenticate authenticate_client_def answered_send)
next
  case (publish cl topic payload)
  then show ?thesis
    using inv by (auto simp: authorizePublish_def answered_send intro!: answered_answer split: sum.splits)
next
  case (subscribe cl pkt)
  then show ?thesis
    using inv by (auto simp: authorizeSubscribe_def answered_send intro!: answered_answer split: option.splits)
next
  case (disconnect cl now)
  have "answered_inv (adp x\<lparr>clients := (clients (adp x))(cl := clients (adp x) cl\<lparr>password := None\<rparr>)\<rparr>)"
    by (rule answered_cong [THEN iffD2, OF _ _ _ inv]) simp_all
  then show ?thesis
    by (simp add: disconnect clientDisconnect_def publishConnEvent_def Let_def answered_emit)
next
  case (reply n c r now)
  then show ?thesis
    using inv answered_on_reply by simp
next
  case (logging a cl err e)
  then show ?thesis
    using inv by (auto simp: clientError_def connectionError_def aedesError_def esclientError_def onPublish_def answered_emit split: option.splits)
qed (use inv answered_on_nats in simp_all)

lemma answered_reachable:
  assumes "(sys_step can_access identify admin encode decode cfg)\<^sup>*\<^sup>* (new_system s) x"
  shows "answered_inv (adp x)"
  using assms
proof induction
  case base
  show ?case
    by (simp add: answered_inv_def answer_count_def new_system_def new_adapter_def)
qed (use answered_step in blast)

text \<open>
  C5. In every reachable state, each call of a handler by the broker, numbered in the order of the
  calls, is either waiting for the things service and not answered, or not waiting and answered
  exactly once; no answer is given to a call that was not made.
\<close>

theorem answered_exactly_once:
  assumes "(sys_step can_access identify admin encode decode cfg)\<^sup>*\<^sup>* (new_system s) x"
  shows "answer_count n (adp x) =
    (if n < next_call (adp x) \<and> calls (adp x) n = None then 1 else 0)"
  using answered_invD [OF answered_reachable [OF assms], of n] by (auto split: if_splits)

section \<open>What a grant stands for\<close>

text \<open>The client is the thing that its key was identified as.\<close>

definition identity :: "'s system \<Rightarrow> nat \<Rightarrow> string \<Rightarrow> bool" where
  "identity x cl k \<longleftrightarrow> (\<exists>s t. thingId (clients (adp x) cl) = Some t \<and> (s, cl, k, t) \<in> set (identified x))"

fun call_ok :: "'s system \<Rightarrow> call \<Rightarrow> bool" where
  "call_ok x (PublishCall cl token pl payload) =
     ((\<exists>topic. publish_plan topic = Inr pl) \<and> identity x cl token)"
| "call_ok x (SubscribeCall cl token chan pkt) =
     (topic_channel (s_topic pkt) = Some chan \<and> identity x cl token)"
| "call_ok x (IdentifyCall cl pass) =
     (thingId (clients (adp x) cl) = None \<and> phases x cl \<in> {Authenticating, Closed})"

fun reply_ok :: "'s system \<Rightarrow> nat \<Rightarrow> call \<Rightarrow> grpc_status + string \<Rightarrow> bool" where
  "reply_ok x n (PublishCall cl token pl payload) (Inr t) = (\<exists>s. (s, n, cl, token, channelId pl, t) \<in> set (granted x))"
| "reply_ok x n (SubscribeCall cl token chan pkt) (Inr t) = (\<exists>s. (s, n, cl, token, chan, t) \<in> set (granted x))"
| "reply_ok x n (IdentifyCall cl pass) (Inr t) = (\<exists>s. (s, cl, pass, t) \<in> set (identified x))"
| "reply_ok x n c (Inl e) = True"

definition publish_justified :: "(message \<Rightarrow> string) \<Rightarrow> 's system \<Rightarrow> string \<Rightarrow> string \<Rightarrow> bool" where
  "publish_justified encode x subject bytes \<longleftrightarrow>
     (\<exists>m s s' n cl token t. bytes = encode m \<and> subject = subject_of m \<and> m_protocol m = ''mqtt'' \<and>
        (s, n, cl, token, m_channel m, t) \<in> set (granted x) \<and> (s', cl, token, m_publisher m) \<in> set (identified x))"

definition subscribe_justified :: "'s system \<Rightarrow> nat \<Rightarrow> subscription \<Rightarrow> bool" where
  "subscribe_justified x n pkt \<longleftrightarrow>
     (\<exists>s s' cl token c t t'. topic_channel (s_topic pkt) = Some c \<and> (s, n, cl, token, c, t) \<in> set (granted x) \<and>
        (s', cl, token, t') \<in> set (identified x))"

fun action_ok :: "(message \<Rightarrow> string) \<Rightarrow> 's system \<Rightarrow> action \<Rightarrow> bool" where
  "action_ok encode x (NatsPublish subject bytes) = publish_justified encode x subject bytes"
| "action_ok encode x (SubscribeCb n None (Some pkt)) = subscribe_justified x n pkt"
| "action_ok encode x (Acknowledge n e True) = (\<exists>s cl k t. (s, cl, k, t) \<in> set (identified x))"
| "action_ok encode x _ = True"

definition fresh_ok :: "'s system \<Rightarrow> bool" where
  "fresh_ok x \<longleftrightarrow> (\<forall>n. next_call (adp x) \<le> n \<longrightarrow> calls (adp x) n = None \<and> replies x n = None)"

definition calls_ok :: "'s system \<Rightarrow> bool" where
  "calls_ok x \<longleftrightarrow>
     (\<forall>n c. calls (adp x) n = Some c \<longrightarrow> call_ok x c \<and> (\<forall>r. replies x n = Some r \<longrightarrow> reply_ok x n c r)) \<and>
     (\<forall>n n' cl p p'. calls (adp x) n = Some (IdentifyCall cl p) \<longrightarrow> calls (adp x) n' = Some (IdentifyCall cl p') \<longrightarrow> n = n')"

definition clients_ok :: "'s system \<Rightarrow> bool" where
  "clients_ok x \<longleftrightarrow>
     (\<forall>cl. phases x cl = Connected \<longrightarrow> (\<exists>k. password (clients (adp x) cl) = Some k \<and> identity x cl k)) \<and>
     (\<forall>cl. phases x cl = Fresh \<longrightarrow> thingId (clients (adp x) cl) = None)"

definition sys_ok :: "(message \<Rightarrow> string) \<Rightarrow> 's system \<Rightarrow> bool" where
  "sys_ok encode x \<longleftrightarrow> fresh_ok x \<and> calls_ok x \<and> clients_ok x \<and> (\<forall>act\<in>set (trace (adp x)). action_ok encode x act)"

text \<open>Growing histories keep what they justify.\<close>

definition later :: "'s system \<Rightarrow> 's system \<Rightarrow> bool" where
  "later x y \<longleftrightarrow> set (granted x) \<subseteq> set (granted y) \<and> set (identified x) \<subseteq> set (identified y)"

lemma later_refl [simp]: "granted y = granted x \<Longrightarrow> identified y = identified x \<Longrightarrow> later x y"
  by (simp add: later_def)

lemma publish_justified_later:
  assumes "later x y" "publish_justified encode x subject bytes"
  shows "publish_justified encode y subject bytes"
proof -
  obtain m s s' n cl k t where "bytes = encode m" "subject = subject_of m" "m_protocol m = ''mqtt''"
    "(s, n, cl, k, m_channel m, t) \<in> set (granted x)" "(s', cl, k, m_publisher m) \<in> set (identified x)"
    using assms(2) unfolding publish_justified_def by blast
  then show ?thesis
    using assms(1) unfolding publish_justified_def later_def by (intro exI [of _ m] exI) auto
qed

lemma subscribe_justified_later:
  assumes "later x y" "subscribe_justified x n pkt"
  shows "subscribe_justified y n pkt"
proof -
  obtain s s' cl k c t t' where "topic_channel (s_topic pkt) = Some c" "(s, n, cl, k, c, t) \<in> set (granted x)"
    "(s', cl, k, t') \<in> set (identified x)"
    using assms(2) unfolding subscribe_justified_def by blast
  then show ?thesis
    using assms(1) unfolding subscribe_justified_def later_def by (intro exI) auto
qed

lemma action_ok_later: "later x y \<Longrightarrow> action_ok encode x act \<Longrightarrow> action_ok encode y act"
  by (cases "(encode, x, act)" rule: action_ok.cases)
    (auto simp: publish_justified_later subscribe_justified_later later_def, blast)

lemma identity_later:
  "later x y \<Longrightarrow> thingId (clients (adp y) cl) = thingId (clients (adp x) cl) \<Longrightarrow> identity x cl k \<Longrightarrow> identity y cl k"
  unfolding later_def identity_def by (elim exE conjE) (intro exI conjI, auto)

lemma reply_ok_later: "later x y \<Longrightarrow> reply_ok x n c r \<Longrightarrow> reply_ok y n c r"
  by (cases "(x, n, c, r)" rule: reply_ok.cases) (auto simp: later_def)

fun client_of :: "call \<Rightarrow> nat" where
  "client_of (PublishCall cl token pl payload) = cl"
| "client_of (SubscribeCall cl token chan pkt) = cl"
| "client_of (IdentifyCall cl pass) = cl"

text \<open>A call stays right while its client keeps its thing and is not fresh or accepted again.\<close>

definition kept :: "'s system \<Rightarrow> 's system \<Rightarrow> nat \<Rightarrow> bool" where
  "kept x y cl \<longleftrightarrow> thingId (clients (adp y) cl) = thingId (clients (adp x) cl) \<and>
     (phases x cl \<in> {Authenticating, Closed} \<longrightarrow> phases y cl \<in> {Authenticating, Closed})"

lemma call_ok_later: "later x y \<Longrightarrow> kept x y (client_of c) \<Longrightarrow> call_ok x c \<Longrightarrow> call_ok y c"
  by (cases c) (auto simp: kept_def intro: identity_later)

lemma calls_ok_frame:
  assumes "calls_ok x" and "later x y"
    and "\<And>n c. calls (adp y) n = Some c \<Longrightarrow> calls (adp x) n = Some c \<and> kept x y (client_of c)"
    and "\<And>n c r. calls (adp y) n = Some c \<Longrightarrow> replies y n = Some r \<Longrightarrow> replies x n = Some r \<or> reply_ok y n c r"
  shows "calls_ok y"
  unfolding calls_ok_def
proof (intro conjI allI impI)
  fix n c
  assume c: "calls (adp y) n = Some c"
  then show "call_ok y c"
    using assms(1,2,3) call_ok_later unfolding calls_ok_def by blast
  fix r
  assume "replies y n = Some r"
  then show "reply_ok y n c r"
    using assms c reply_ok_later unfolding calls_ok_def by metis
next
  fix n n' cl p p'
  assume "calls (adp y) n = Some (IdentifyCall cl p)" "calls (adp y) n' = Some (IdentifyCall cl p')"
  then show "n = n'"
    using assms(1,3) unfolding calls_ok_def by blast
qed

lemma calls_ok_send:
  assumes "calls_ok x" and "later x y"
    and "calls (adp y) = (calls (adp x))(n \<mapsto> c)" and "replies y = replies x" and "replies x n = None"
    and "\<And>m d. calls (adp x) m = Some d \<Longrightarrow> kept x y (client_of d)" and "call_ok y c"
    and "\<And>cl p m q. c = IdentifyCall cl p \<Longrightarrow> calls (adp x) m \<noteq> Some (IdentifyCall cl q)"
  shows "calls_ok y"
  unfolding calls_ok_def
proof (intro conjI allI impI)
  fix m d
  assume d: "calls (adp y) m = Some d"
  then show "call_ok y d"
    using assms(1,2,3,6,7) call_ok_later unfolding calls_ok_def by (metis fun_upd_apply option.inject)
  fix r
  assume "replies y m = Some r"
  then show "reply_ok y m d r"
    using assms(1-5) d reply_ok_later unfolding calls_ok_def by (metis fun_upd_apply option.distinct(1))
next
  fix m m' cl p p'
  assume "calls (adp y) m = Some (IdentifyCall cl p)" "calls (adp y) m' = Some (IdentifyCall cl p')"
  then show "m = m'"
    using assms(1,3,8) unfolding calls_ok_def by (metis fun_upd_apply option.inject)
qed

lemma clients_ok_frame:
  assumes "clients_ok x" and "later x y"
    and "\<And>cl. phases y cl = Connected \<Longrightarrow> phases x cl = Connected \<and> clients (adp y) cl = clients (adp x) cl"
    and "\<And>cl. phases y cl = Fresh \<Longrightarrow> phases x cl = Fresh \<and> clients (adp y) cl = clients (adp x) cl"
  shows "clients_ok y"
  using assms identity_later unfolding clients_ok_def by metis

lemma sys_okI:
  assumes "sys_ok encode x" and "later x y" and "fresh_ok y" "calls_ok y" "clients_ok y"
    and "trace (adp y) = trace (adp x) @ os" and "\<And>act. act \<in> set os \<Longrightarrow> action_ok encode y act"
  shows "sys_ok encode y"
  using assms action_ok_later [OF assms(2), of encode] unfolding sys_ok_def by auto

text \<open>A step that only adds to the trace, to the answers or to the histories.\<close>

lemma sys_ok_frame:
  assumes "sys_ok encode x" and "later x y"
    and "trace (adp y) = trace (adp x) @ os" and "\<And>act. act \<in> set os \<Longrightarrow> action_ok encode y act"
    and "\<And>n. calls (adp y) n \<noteq> None \<Longrightarrow> calls (adp y) n = calls (adp x) n" and "next_call (adp x) \<le> next_call (adp y)"
    and "\<And>n r. replies y n = Some r \<Longrightarrow> replies x n = Some r \<or> n < next_call (adp x)"
    and "\<And>n c r. calls (adp y) n = Some c \<Longrightarrow> replies y n = Some r \<Longrightarrow> replies x n = Some r \<or> reply_ok y n c r"
    and "clients (adp y) = clients (adp x)" and "phases y = phases x"
  shows "sys_ok encode y"
proof (rule sys_okI [OF assms(1,2) _ _ _ assms(3,4)])
  have x: "fresh_ok x" "calls_ok x" "clients_ok x"
    using assms(1) by (simp_all add: sys_ok_def)
  have "calls (adp y) n = None \<and> replies y n = None" if "next_call (adp y) \<le> n" for n
  proof -
    have n: "next_call (adp x) \<le> n"
      using that assms(6) by simp
    then have "calls (adp x) n = None" "replies x n = None"
      using x(1) by (simp_all add: fresh_ok_def)
    then show ?thesis
      using assms(5) [of n] assms(7) [of n] n by (cases "replies y n"; cases "calls (adp y) n") auto
  qed
  then show "fresh_ok y"
    by (simp add: fresh_ok_def)
  show "calls_ok y"
    using x(2) assms(2)
  proof (rule calls_ok_frame)
    fix n c
    assume "calls (adp y) n = Some c"
    then show "calls (adp x) n = Some c \<and> kept x y (client_of c)"
      using assms(5) [of n] by (simp add: kept_def assms(9,10))
  qed (use assms(8) in blast)
  show "clients_ok y"
    using x(3) assms(2) by (rule clients_ok_frame) (simp_all add: assms(9,10))
qed

lemma serve_later: "later x (serve can_access identify n c x)"
  by (cases c) (auto simp: later_def Let_def split: prod.splits)

lemma serve_reply:
  "\<exists>r. replies (serve can_access identify n c x) = (replies x)(n \<mapsto> r) \<and> reply_ok (serve can_access identify n c x) n c r"
proof (cases c)
  case (PublishCall cl token pl payload)
  then show ?thesis
    by (intro exI [of _ "fst (can_access token (channelId pl) (svc x))"], cases "can_access token (channelId pl) (svc x)", cases "fst (can_access token (channelId pl) (svc x))") auto
next
  case (SubscribeCall cl token chan pkt)
  then show ?thesis
    by (intro exI [of _ "fst (can_access token chan (svc x))"], cases "can_access token chan (svc x)", cases "fst (can_access token chan (svc x))") auto
next
  case (IdentifyCall cl pass)
  then show ?thesis
    by (intro exI [of _ "fst (identify pass (svc x))"], cases "identify pass (svc x)", cases "fst (identify pass (svc x))") auto
qed

lemma sys_ok_serve:
  assumes "sys_ok encode x" "calls (adp x) n = Some c"
  shows "sys_ok encode (serve can_access identify n c x)"
proof -
  have "n < next_call (adp x)"
    using assms by (metis fresh_ok_def linorder_not_less option.distinct(1) sys_ok_def)
  moreover obtain r where "replies (serve can_access identify n c x) = (replies x)(n \<mapsto> r)"
    "reply_ok (serve can_access identify n c x) n c r"
    using serve_reply by metis
  ultimately show ?thesis
    using assms(2) by (intro sys_ok_frame [OF assms(1) serve_later, where os = "[]"]) (auto split: if_splits)
qed

lemma publish_action_ok:
  assumes "call_ok x (PublishCall cl token pl payload)" "reply_ok x n (PublishCall cl token pl payload) (Inr t)"
  shows "publish_justified encode x (channelTopic pl) (encode (published_message (clients (adp x) cl) pl payload))"
proof -
  obtain topic s t' s' where t: "publish_plan topic = Inr pl" "(s, n, cl, token, channelId pl, t) \<in> set (granted x)"
    "thingId (clients (adp x) cl) = Some t'" "(s', cl, token, t') \<in> set (identified x)"
    using assms by (auto simp: identity_def)
  let ?m = "published_message (clients (adp x) cl) pl payload"
  have "channelTopic pl = subject_of ?m"
    using t(1) by (rule channelTopic_subject)
  moreover have "m_channel ?m = channelId pl" "m_publisher ?m = t'" "m_protocol ?m = ''mqtt''"
    using t(3) by (simp_all add: published_message_def proto_text_def)
  ultimately show ?thesis
    unfolding publish_justified_def using t(2,4) by metis
qed

lemma subscribe_action_ok:
  assumes "call_ok x (SubscribeCall cl token chan pkt)" "reply_ok x n (SubscribeCall cl token chan pkt) (Inr t)"
  shows "subscribe_justified x n pkt"
  using assms unfolding subscribe_justified_def call_ok.simps reply_ok.simps identity_def by blast

lemma sys_ok_reply_access:
  assumes "sys_ok encode x" "calls (adp x) n = Some c" "replies x n = Some r" "\<forall>cl p. c \<noteq> IdentifyCall cl p"
  shows "sys_ok encode (x\<lparr>adp := on_reply encode cfg now n r (adp x), phases := phase_after c r (phases x)\<rparr>)"
proof -
  let ?y = "x\<lparr>adp := on_reply encode cfg now n r (adp x), phases := phase_after c r (phases x)\<rparr>"
  have ok: "call_ok x c" "reply_ok x n c r"
    using assms by (auto simp: sys_ok_def calls_ok_def)
  have "\<exists>os. trace (adp ?y) = trace (adp x) @ os \<and> (\<forall>act\<in>set os. action_ok encode x act)"
  proof (cases c)
    case (PublishCall cl token pl payload)
    with ok assms(2) show ?thesis
      using publish_action_ok [of x cl token pl payload n _ encode]
      by (cases r) (auto simp: on_reply_def onAuthorize_publish_def Let_def)
  next
    case (SubscribeCall cl token chan pkt)
    with ok assms(2) show ?thesis
      using subscribe_action_ok [of x cl token chan pkt n]
      by (cases r) (auto simp: on_reply_def onAuthorize_subscribe_def Let_def)
  qed (use assms(4) in blast)
  then obtain os where os: "trace (adp ?y) = trace (adp x) @ os" "\<forall>act\<in>set os. action_ok encode x act"
    by blast
  have same: "clients (adp ?y) = clients (adp x)" "phases ?y = phases x" "next_call (adp ?y) = next_call (adp x)"
    "calls (adp ?y) = (calls (adp x))(n := None)"
    using assms(2,4) by (cases c; cases r; simp add: on_reply_def onAuthorize_publish_def
      onAuthorize_subscribe_def phase_after_def Let_def)+
  have later: "later x ?y"
    by simp
  show ?thesis
    using assms(1) later os(1)
  proof (rule sys_ok_frame)
    show "action_ok encode ?y act" if "act \<in> set os" for act
      using os(2) that action_ok_later [OF later] by blast
    show "calls (adp ?y) m = calls (adp x) m" if "calls (adp ?y) m \<noteq> None" for m
      using that unfolding same by (auto split: if_splits)
  qed (use same in simp_all)
qed

text \<open>A client that waits for its identification has no other call in flight.\<close>

lemma identify_call_alone:
  assumes "calls_ok x" "calls (adp x) n = Some (IdentifyCall cl pass)" "calls (adp x) m = Some c" "m \<noteq> n"
  shows "client_of c \<noteq> cl"
proof
  assume cl: "client_of c = cl"
  have "call_ok x (IdentifyCall cl pass)" "call_ok x c" "\<forall>p. c \<noteq> IdentifyCall cl p"
    using assms unfolding calls_ok_def by blast+
  with cl show False
    by (cases c) (auto simp: identity_def)
qed

lemma sys_ok_reply_identify:
  assumes "sys_ok encode x" "calls (adp x) n = Some (IdentifyCall cl pass)" "replies x n = Some r"
  shows "sys_ok encode (x\<lparr>adp := on_reply encode cfg now n r (adp x), phases := phase_after (IdentifyCall cl pass) r (phases x)\<rparr>)"
    (is "sys_ok encode ?y")
proof -
  have x: "fresh_ok x" "calls_ok x" "clients_ok x"
    using assms(1) by (simp_all add: sys_ok_def)
  have ok: "call_ok x (IdentifyCall cl pass)" "reply_ok x n (IdentifyCall cl pass) r"
    using x(2) assms(2,3) unfolding calls_ok_def by blast+
  have same: "next_call (adp ?y) = next_call (adp x)" "calls (adp ?y) = (calls (adp x))(n := None)" "replies ?y = replies x"
    and others: "\<And>cl'. cl' \<noteq> cl \<Longrightarrow> clients (adp ?y) cl' = clients (adp x) cl' \<and> phases ?y cl' = phases x cl'"
    using assms(2) by (cases r; simp add: on_reply_def onIdentify_def phase_after_def Let_def)+
  have later: "later x ?y"
    by simp
  have other_calls: "client_of c \<noteq> cl" if "calls (adp ?y) m = Some c" for m c
    using identify_call_alone [OF x(2) assms(2), of m c] that same(2) by (auto split: if_splits)
  obtain os where os: "trace (adp ?y) = trace (adp x) @ os" "\<forall>act\<in>set os. action_ok encode ?y act"
    using assms(2) ok(2) by (cases r) (auto simp: on_reply_def onIdentify_def publishConnEvent_def Let_def)
  show ?thesis
    using assms(1) later _ _ _ os(1)
  proof (rule sys_okI)
    show "fresh_ok ?y"
      using x(1) unfolding fresh_ok_def same by auto
    show "calls_ok ?y"
      using x(2) later
    proof (rule calls_ok_frame)
      fix m c
      assume "calls (adp ?y) m = Some c"
      then show "calls (adp x) m = Some c \<and> kept x ?y (client_of c)"
        using other_calls [of m c] others [of "client_of c"] same(2) by (auto simp: kept_def split: if_splits)
    qed (simp add: same(3))
    have "\<exists>k. password (clients (adp ?y) cl') = Some k \<and> identity ?y cl' k" if "phases ?y cl' = Connected" for cl'
    proof (cases "cl' = cl")
      case True
      with that ok obtain t where "r = Inr t"
        by (cases r) (auto simp: phase_after_def split: if_splits)
      then show ?thesis
        using True ok(2) assms(2) by (auto simp: on_reply_def onIdentify_def Let_def identity_def)
    next
      case False
      then show ?thesis
        using that x(3) others [OF False] identity_later [OF later, of cl'] unfolding clients_ok_def by metis
    qed
    moreover have "thingId (clients (adp ?y) cl') = None" if "phases ?y cl' = Fresh" for cl'
      using that x(3) others [of cl'] ok(1) unfolding clients_ok_def
      by (cases "cl' = cl") (auto simp: phase_after_def split: if_splits sum.splits)
    ultimately show "clients_ok ?y"
      by (simp add: clients_ok_def)
  qed (use os(2) in blast)
qed

lemma sys_ok_send:
  assumes "sys_ok encode x" and y: "adp y = send c b" "calls b = calls (adp x)" "next_call b = next_call (adp x)"
      "trace b = trace (adp x)" "replies y = replies x" "granted y = granted x" "identified y = identified x"
    and "\<And>m d. calls (adp x) m = Some d \<Longrightarrow> kept x y (client_of d)" and "call_ok y c"
    and "\<And>cl p m q. c = IdentifyCall cl p \<Longrightarrow> calls (adp x) m \<noteq> Some (IdentifyCall cl q)" and "clients_ok y"
  shows "sys_ok encode y"
proof (rule sys_okI [where os = "[]", OF assms(1)])
  have x: "fresh_ok x" "calls_ok x"
    using assms(1) by (simp_all add: sys_ok_def)
  show later: "later x y"
    by (simp add: y)
  show "fresh_ok y"
    using x(1) by (auto simp: fresh_ok_def y)
  have "replies x (next_call (adp x)) = None"
    using x(1) by (simp add: fresh_ok_def)
  then show "calls_ok y"
    using assms(9-11) by (intro calls_ok_send [OF x(2) later, where n = "next_call (adp x)" and c = c]) (simp_all add: y)
  show "clients_ok y"
    by fact
qed (simp_all add: y)

lemma identity_cong:
  "adp y = send c (adp x) \<Longrightarrow> identified y = identified x \<Longrightarrow> identity y cl k = identity x cl k"
  by (simp add: identity_def)

lemma sys_ok_request:
  assumes "sys_ok encode x" "phases x cl = Connected" "\<forall>cl p. c \<noteq> IdentifyCall cl p"
    and "call_ok (x\<lparr>adp := send c (adp x)\<rparr>) c"
  shows "sys_ok encode (x\<lparr>adp := send c (adp x)\<rparr>)"
proof -
  have "clients_ok (x\<lparr>adp := send c (adp x)\<rparr>)"
    by (rule clients_ok_frame [of x]) (use assms(1) in \<open>simp_all add: sys_ok_def\<close>)
  then show ?thesis
    using assms(4) by (intro sys_ok_send [OF assms(1), where c = c and b = "adp x"]) (simp_all add: kept_def assms(3))
qed

lemma sys_ok_emit:
  assumes "sys_ok encode x" "list_all (action_ok encode x) os"
  shows "sys_ok encode (x\<lparr>adp := emit os (adp x)\<rparr>)" "sys_ok encode (x\<lparr>adp := answer os (adp x)\<rparr>)"
proof -
  have ok: "action_ok encode (x\<lparr>adp := a\<rparr>) act" if "act \<in> set os" for act a
    using assms(2) that action_ok_later [of x "x\<lparr>adp := a\<rparr>"] by (simp add: list_all_iff)
  show "sys_ok encode (x\<lparr>adp := emit os (adp x)\<rparr>)"
    by (rule sys_ok_frame [OF assms(1), where os = os]) (simp_all add: ok)
  show "sys_ok encode (x\<lparr>adp := answer os (adp x)\<rparr>)"
    by (rule sys_ok_frame [OF assms(1), where os = os]) (simp_all add: ok)
qed

lemma connected_identity:
  assumes "sys_ok encode x" "phases x cl = Connected"
  shows "identity x cl (proto_text (password (clients (adp x) cl)))"
  using assms by (auto simp: sys_ok_def clients_ok_def proto_text_def)

lemma sys_ok_publish:
  assumes "sys_ok encode x" "phases x cl = Connected"
  shows "sys_ok encode (x\<lparr>adp := authorizePublish cl topic payload (adp x)\<rparr>)"
proof (cases "publish_plan topic")
  case (Inl e)
  then show ?thesis
    using sys_ok_emit(2) [OF assms(1)] by (simp add: authorizePublish_def)
next
  case (Inr pl)
  then show ?thesis
    using connected_identity [OF assms] assms
    by (auto simp: authorizePublish_def identity_def intro!: sys_ok_request [where cl = cl])
qed

lemma sys_ok_subscribe:
  assumes "sys_ok encode x" "phases x cl = Connected"
  shows "sys_ok encode (x\<lparr>adp := authorizeSubscribe cl pkt (adp x)\<rparr>)"
proof (cases "parseTopic (s_topic pkt)")
  case None
  then show ?thesis
    using sys_ok_emit(2) [OF assms(1)] by (simp add: authorizeSubscribe_def)
next
  case (Some g)
  then show ?thesis
    using connected_identity [OF assms] assms group1_parseTopic [OF Some]
    by (auto simp: authorizeSubscribe_def identity_def intro!: sys_ok_request [where cl = cl])
qed

lemma sys_ok_authenticate:
  assumes "sys_ok encode x" "phases x cl = Fresh"
  shows "sys_ok encode
    (x\<lparr>adp := authenticate_client cl pwd (named_client cl ident (adp x)), phases := (phases x)(cl := Authenticating)\<rparr>)"
    (is "sys_ok encode ?y")
proof -
  have x: "calls_ok x" "clients_ok x"
    using assms(1) by (simp_all add: sys_ok_def)
  have none: "thingId (clients (adp x) cl) = None"
    using x(2) assms(2) by (simp add: clients_ok_def)
  have calls: "client_of d \<noteq> cl" if "calls (adp x) m = Some d" for m d
  proof -
    have "call_ok x d"
      using x(1) that unfolding calls_ok_def by blast
    then show ?thesis
      using none assms(2) by (cases d) (auto simp: identity_def)
  qed
  show ?thesis
  proof (rule sys_ok_send [OF assms(1)])
    show "adp ?y = send (IdentifyCall cl (js_or pwd [])) (named_client cl ident (adp x))"
      by (simp add: authenticate_client_def)
    show "kept x ?y (client_of d)" if "calls (adp x) m = Some d" for m d
      using calls [OF that] by (auto simp: kept_def authenticate_client_def named_client_def)
    show "calls (adp x) m \<noteq> Some (IdentifyCall cl' q)" if "IdentifyCall cl (js_or pwd []) = IdentifyCall cl' p" for cl' p m q
      using calls that by fastforce
    show "clients_ok ?y"
      using x(2) by (rule clients_ok_frame) (auto simp: authenticate_client_def named_client_def split: if_splits)
  qed (simp_all add: none authenticate_client_def named_client_def)
qed

lemma sys_ok_disconnect:
  assumes "sys_ok encode x" "phases x cl \<noteq> Fresh"
  shows "sys_ok encode (x\<lparr>adp := clientDisconnect cfg now cl (adp x), phases := (phases x)(cl := Closed)\<rparr>)"
    (is "sys_ok encode ?y")
proof -
  have later: "later x ?y"
    by simp
  have x: "fresh_ok x" "calls_ok x" "clients_ok x"
    using assms(1) by (simp_all add: sys_ok_def)
  show ?thesis
  proof (rule sys_okI [OF assms(1) later])
    show "fresh_ok ?y"
      using x(1) by (simp add: fresh_ok_def clientDisconnect_def Let_def)
    show "calls_ok ?y"
      using x(2) later by (rule calls_ok_frame) (auto simp: kept_def clientDisconnect_def Let_def)
    show "clients_ok ?y"
      using x(3) later by (rule clients_ok_frame) (auto simp: clientDisconnect_def Let_def split: if_splits)
    show "trace (adp ?y) = trace (adp x) @ [Info ''disconnect client %s'' [Text (Some (client_id (clients (adp x) cl)))],
        publishConnEvent cfg now (thingId (clients (adp x) cl)) ''disconnect'']"
      by (simp add: clientDisconnect_def Let_def)
  qed (auto simp: publishConnEvent_def)
qed

lemma sys_ok_step:
  assumes "sys_step can_access identify admin encode decode cfg x y" and inv: "sys_ok encode x"
  shows "sys_ok encode y"
  using assms(1)
proof cases
  case (fail n c)
  then have "n < next_call (adp x)"
    using inv by (metis fresh_ok_def linorder_not_less option.distinct(1) sys_ok_def)
  then show ?thesis
    unfolding fail by (intro sys_ok_frame [OF inv, where os = "[]"]) (auto split: if_splits)
next
  case (reply n c r now)
  show ?thesis
  proof (cases "\<exists>cl p. c = IdentifyCall cl p")
    case True
    with reply show ?thesis
      using sys_ok_reply_identify [OF inv] by auto
  next
    case False
    with reply show ?thesis
      using sys_ok_reply_access [OF inv] by auto
  qed
next
  case (nats msg)
  have "x\<lparr>adp := adp x\<rparr> = x"
    by simp
  with nats show ?thesis
    using inv sys_ok_emit(1) [OF inv] by (auto simp: on_nats_def split: option.splits)
next
  case (users s)
  then show ?thesis
    by (intro sys_ok_frame [OF inv, where os = "[]"]) auto
next
  case (logging a cl err e)
  then show ?thesis
    using inv sys_ok_emit(1) [OF inv]
    by (auto simp: clientError_def connectionError_def aedesError_def esclientError_def onPublish_def split: option.splits)
qed (auto simp: inv intro!: sys_ok_serve sys_ok_publish sys_ok_subscribe sys_ok_authenticate sys_ok_disconnect)

lemma sys_ok_new: "sys_ok encode (new_system s)"
  by (simp add: sys_ok_def fresh_ok_def calls_ok_def clients_ok_def new_system_def new_adapter_def)

lemma sys_ok_reachable:
  assumes "(sys_step can_access identify admin encode decode cfg)\<^sup>*\<^sup>* (new_system s) x"
  shows "sys_ok encode x"
  using assms by induction (auto intro: sys_ok_new sys_ok_step)

text \<open>
  C18. No handler is stuck: from every reachable state, a call that waits for the things service can be
  answered, by a reply that has come or by the failure of its connection, and then exactly one answer is given.
\<close>

theorem waiting_can_be_answered:
  assumes "(sys_step can_access identify admin encode decode cfg)\<^sup>*\<^sup>* (new_system s) x" and "calls (adp x) n \<noteq> None"
  shows "\<exists>y. (sys_step can_access identify admin encode decode cfg)\<^sup>*\<^sup>* x y \<and> answer_count n (adp y) = 1 \<and> calls (adp y) n = None"
proof -
  let ?step = "sys_step can_access identify admin encode decode cfg"
  obtain c where c: "calls (adp x) n = Some c"
    using assms(2) by blast
  have "\<exists>z r. ?step\<^sup>*\<^sup>* x z \<and> adp z = adp x \<and> replies z n = Some r"
  proof (cases "replies x n")
    case None
    then have "?step\<^sup>*\<^sup>* x (x\<lparr>replies := (replies x)(n \<mapsto> Inl Unavailable)\<rparr>)"
      using sys_step.fail [OF c] by blast
    then show ?thesis
      by (intro exI conjI, assumption) simp_all
  qed blast
  then obtain z r where z: "?step\<^sup>*\<^sup>* x z" "adp z = adp x" "replies z n = Some r"
    by blast
  let ?y = "z\<lparr>adp := on_reply encode cfg 0 n r (adp z), phases := phase_after c r (phases z)\<rparr>"
  have "?step z ?y"
    by (rule sys_step.reply) (simp_all add: z c)
  then have y: "?step\<^sup>*\<^sup>* x ?y"
    using z(1) by (rule rtranclp.rtrancl_into_rtrancl [rotated])
  have next_y: "n < next_call (adp ?y)" "calls (adp ?y) n = None"
  proof -
    have "n < next_call (adp x)"
      using sys_ok_reachable [OF assms(1)] c
      by (metis fresh_ok_def linorder_not_less option.distinct(1) sys_ok_def)
    then show "n < next_call (adp ?y)" "calls (adp ?y) n = None"
      using on_reply_trace [of "adp z" n c encode cfg 0 r] c z(2) by auto
  qed
  moreover have "answered_inv (adp ?y)"
    using answered_reachable [OF rtranclp_trans [OF assms(1) y]] .
  ultimately have "answer_count n (adp ?y) = 1"
    using answered_invD [of "adp ?y" n] by simp
  with y next_y show ?thesis
    by blast
qed

text \<open>A request, its answer by the service and its callback, one after the other.\<close>

lemma answer_steps:
  assumes "calls (adp x) n = Some c" "replies x n = None" "replies (serve can_access identify n c x) n = Some r"
  shows "(sys_step can_access identify admin encode decode cfg)\<^sup>*\<^sup>* x
    ((serve can_access identify n c x)\<lparr>adp := on_reply encode cfg now n r (adp x), phases := phase_after c r (phases x)\<rparr>)"
proof -
  let ?z = "serve can_access identify n c x"
  have "sys_step can_access identify admin encode decode cfg x ?z"
    using assms(1,2) by (rule sys_step.serve)
  moreover have "sys_step can_access identify admin encode decode cfg ?z
      (?z\<lparr>adp := on_reply encode cfg now n r (adp ?z), phases := phase_after c r (phases ?z)\<rparr>)"
    by (rule sys_step.reply) (simp_all add: assms(1,3))
  ultimately show ?thesis
    by simp
qed

section \<open>For every service that keeps the laws\<close>

text \<open>The users are not bound by anything here: they may change the service in ways that leave its caches behind
  its tables.\<close>

context managed_things
begin

definition history_ok :: "'s \<Rightarrow> 's system \<Rightarrow> bool" where
  "history_ok s0 x \<longleftrightarrow> admin\<^sup>*\<^sup>* s0 (svc x) \<and>
     (\<forall>(s, n, cl, k, c, t)\<in>set (granted x). admin\<^sup>*\<^sup>* s0 s \<and> (\<exists>s'. can_access k c s = (Inr t, s'))) \<and>
     (\<forall>(s, cl, k, t)\<in>set (identified x). admin\<^sup>*\<^sup>* s0 s \<and> (\<exists>s'. identify k s = (Inr t, s')))"

lemma history_serve:
  assumes "history_ok s0 x"
  shows "history_ok s0 (serve can_access identify n c x)"
proof -
  have reach: "admin\<^sup>*\<^sup>* s0 (svc x)"
    using assms by (simp add: history_ok_def)
  have steps: "can_access k ch (svc x) = (r, s') \<Longrightarrow> admin\<^sup>*\<^sup>* s0 s'" "identify k (svc x) = (r, s') \<Longrightarrow> admin\<^sup>*\<^sup>* s0 s'" for k ch r s'
    using reach access_step identify_step by (auto intro: rtranclp_trans)
  show ?thesis
  proof (cases c)
    case (PublishCall cl token pl payload)
    then show ?thesis
      using assms steps(1) [of token "channelId pl"] reach
      by (cases "can_access token (channelId pl) (svc x)") (auto simp: history_ok_def split: sum.splits)
  next
    case (SubscribeCall cl token chan pkt)
    then show ?thesis
      using assms steps(1) [of token chan] reach
      by (cases "can_access token chan (svc x)") (auto simp: history_ok_def split: sum.splits)
  next
    case (IdentifyCall cl pass)
    then show ?thesis
      using assms steps(2) [of pass] reach
      by (cases "identify pass (svc x)") (auto simp: history_ok_def split: sum.splits)
  qed
qed

lemma history_step:
  assumes "sys_step can_access identify admin encode decode cfg x y" "history_ok s0 x"
  shows "history_ok s0 y"
  using assms(1)
proof cases
  case (users s)
  then show ?thesis
    using assms(2) by (simp add: history_ok_def) (meson rtranclp.rtrancl_into_rtrancl)
next
  case (serve n c)
  then show ?thesis
    using history_serve [OF assms(2)] by simp
qed (use assms(2) in \<open>simp_all add: history_ok_def\<close>)

lemma history_reachable:
  assumes "(sys_step can_access identify admin encode decode cfg)\<^sup>*\<^sup>* (new_system s0) x"
  shows "history_ok s0 x"
  using assms
proof induction
  case base
  show ?case
    by (simp add: history_ok_def new_system_def)
qed (use history_step in blast)

text \<open>What a grant and an identification stand for, if the caches were true at the start: what they say held at
  some time before, and holds at the time of the answer if the caches agree with the tables then.\<close>

lemma history_identified:
  assumes "history_ok s0 x" "(s, cl, k, t) \<in> set (identified x)" "\<And>k t. key_cached s0 k t \<Longrightarrow> key_thing s0 k = Some t"
  shows "admin\<^sup>*\<^sup>* s0 s" "held admin s0 s (\<lambda>s1. key_thing s1 k = Some t)" "inv s \<Longrightarrow> key_thing s k = Some t"
proof -
  obtain s' where s: "admin\<^sup>*\<^sup>* s0 s" "identify k s = (Inr t, s')"
    using assms(1,2) by (fastforce simp: history_ok_def)
  then show "admin\<^sup>*\<^sup>* s0 s" "held admin s0 s (\<lambda>s1. key_thing s1 k = Some t)" "inv s \<Longrightarrow> key_thing s k = Some t"
    using key_cached_held [OF s(1) assms(3) identify_origin [OF s(2)]] identify_sound by blast+
qed

lemma history_granted:
  assumes "history_ok s0 x" "(s, n, cl, k, c, t) \<in> set (granted x)" "\<And>k t. key_cached s0 k t \<Longrightarrow> key_thing s0 k = Some t"
    and "\<And>c t. conn_cached s0 c t \<Longrightarrow> connected s0 c t"
  shows "held admin s0 s (\<lambda>s1. key_thing s1 k = Some t)" "held admin s0 s (\<lambda>s1. connected s1 c t)"
    and "inv s \<Longrightarrow> key_thing s k = Some t \<and> connected s c t"
proof -
  obtain s' where s: "admin\<^sup>*\<^sup>* s0 s" "can_access k c s = (Inr t, s')"
    using assms(1,2) by (fastforce simp: history_ok_def)
  note o = access_origin [OF s(2)]
  show "held admin s0 s (\<lambda>s1. key_thing s1 k = Some t)" "held admin s0 s (\<lambda>s1. connected s1 c t)"
    using key_cached_held [OF s(1) assms(3)] conn_cached_held [OF s(1) assms(4)] o by blast+
  show "inv s \<Longrightarrow> key_thing s k = Some t \<and> connected s c t"
    using access_sound s(2) by blast
qed

text \<open>What is published to NATS was granted to the key that the publisher was identified by.\<close>

lemma publish_safe:
  assumes "(sys_step can_access identify admin encode decode cfg)\<^sup>*\<^sup>* (new_system s0) x"
    and true0: "\<And>k t. key_cached s0 k t \<Longrightarrow> key_thing s0 k = Some t" "\<And>c t. conn_cached s0 c t \<Longrightarrow> connected s0 c t"
    and "NatsPublish subject bytes \<in> set (trace (adp x))"
  shows "\<exists>m cl k t s s'. bytes = encode m \<and> subject = subject_of m \<and> m_protocol m = ''mqtt'' \<and>
     (\<exists>n. (s, n, cl, k, m_channel m, t) \<in> set (granted x)) \<and> (s', cl, k, m_publisher m) \<in> set (identified x) \<and>
     held admin s0 s (\<lambda>s1. key_thing s1 k = Some t) \<and> held admin s0 s (\<lambda>s1. connected s1 (m_channel m) t) \<and>
     held admin s0 s' (\<lambda>s1. key_thing s1 k = Some (m_publisher m)) \<and>
     (inv s \<longrightarrow> key_thing s k = Some t \<and> connected s (m_channel m) t) \<and>
     (inv s' \<longrightarrow> key_thing s' k = Some (m_publisher m))"
proof -
  note H = history_reachable [OF assms(1)]
  have "publish_justified encode x subject bytes"
    using sys_ok_reachable [OF assms(1)] assms(4) by (auto simp: sys_ok_def)
  then obtain m s s' n cl k t where m: "bytes = encode m" "subject = subject_of m" "m_protocol m = ''mqtt''"
    "(s, n, cl, k, m_channel m, t) \<in> set (granted x)" "(s', cl, k, m_publisher m) \<in> set (identified x)"
    unfolding publish_justified_def by blast
  show ?thesis
    by (intro exI [of _ m] exI [of _ cl] exI [of _ k] exI [of _ t] exI [of _ s] exI [of _ s'])
      (use m history_granted [OF H m(4) true0] history_identified [OF H m(5) true0(1)] in blast)
qed

lemma subscribe_safe:
  assumes "(sys_step can_access identify admin encode decode cfg)\<^sup>*\<^sup>* (new_system s0) x"
    and true0: "\<And>k t. key_cached s0 k t \<Longrightarrow> key_thing s0 k = Some t" "\<And>c t. conn_cached s0 c t \<Longrightarrow> connected s0 c t"
    and "SubscribeCb n None (Some pkt) \<in> set (trace (adp x))"
  shows "\<exists>c cl k t t' s s'. topic_channel (s_topic pkt) = Some c \<and> (s, n, cl, k, c, t) \<in> set (granted x) \<and>
    (s', cl, k, t') \<in> set (identified x) \<and>
    held admin s0 s (\<lambda>s1. key_thing s1 k = Some t) \<and> held admin s0 s (\<lambda>s1. connected s1 c t) \<and>
    (inv s \<longrightarrow> key_thing s k = Some t \<and> connected s c t)"
proof -
  note H = history_reachable [OF assms(1)]
  have "subscribe_justified x n pkt"
    using sys_ok_reachable [OF assms(1)] assms(4) by (auto simp: sys_ok_def)
  then obtain s s' cl k c t t' where c: "topic_channel (s_topic pkt) = Some c" "(s, n, cl, k, c, t) \<in> set (granted x)"
    "(s', cl, k, t') \<in> set (identified x)"
    unfolding subscribe_justified_def by blast
  show ?thesis
    by (intro exI [of _ c] exI [of _ cl] exI [of _ k] exI [of _ t] exI [of _ t'] exI [of _ s] exI [of _ s'])
      (use c history_granted [OF H c(2) true0] in blast)
qed

lemma connected_client_known:
  assumes "(sys_step can_access identify admin encode decode cfg)\<^sup>*\<^sup>* (new_system s0) x"
    and "\<And>k t. key_cached s0 k t \<Longrightarrow> key_thing s0 k = Some t" and "phases x cl = Connected"
  shows "\<exists>k t s. password (clients (adp x) cl) = Some k \<and> thingId (clients (adp x) cl) = Some t \<and>
     admin\<^sup>*\<^sup>* s0 s \<and> key_thing s k = Some t"
proof -
  have "clients_ok x"
    using sys_ok_reachable [OF assms(1)] by (simp add: sys_ok_def)
  then obtain k s t where k: "password (clients (adp x) cl) = Some k" "thingId (clients (adp x) cl) = Some t"
    "(s, cl, k, t) \<in> set (identified x)"
    using assms(3) by (auto simp: clients_ok_def identity_def)
  from history_identified(2) [OF history_reachable [OF assms(1)] k(3) assms(2)] show ?thesis
    using k(1,2) unfolding held_def by blast
qed

text \<open>A client with the key of a thing can connect, and a connected client can publish and subscribe to
  the channels of its thing.\<close>

lemma connect_succeeds:
  assumes "fresh_ok x" "inv (svc x)" "phases x cl = Fresh" "key_thing (svc x) k = Some t" "k \<noteq> []"
  shows "\<exists>y. (sys_step can_access identify admin encode decode cfg)\<^sup>*\<^sup>* x y \<and> fresh_ok y \<and> inv (svc y) \<and>
    phases y cl = Connected \<and> password (clients (adp y) cl) = Some k \<and> thingId (clients (adp y) cl) = Some t \<and>
    Acknowledge (next_call (adp x)) None True \<in> set (trace (adp y)) \<and>
    key_thing (svc y) = key_thing (svc x) \<and> connected (svc y) = connected (svc x)"
proof -
  let ?step = "sys_step can_access identify admin encode decode cfg" and ?n = "next_call (adp x)"
    and ?c = "IdentifyCall cl k"
  obtain s' where s': "identify k (svc x) = (Inr t, s')"
    using identify_complete [OF assms(2,4)] by (metis prod.collapse)
  note laws = identify_inv [OF assms(2) s']
  define x1 where "x1 = x\<lparr>adp := authenticate_client cl (Some k) (named_client cl [] (adp x)), phases := (phases x)(cl := Authenticating)\<rparr>"
  define y where "y = (serve can_access identify ?n ?c x1)\<lparr>adp := on_reply encode cfg 0 ?n (Inr t) (adp x1), phases := phase_after ?c (Inr t) (phases x1)\<rparr>"
  have c1: "calls (adp x1) ?n = Some ?c" "replies x1 ?n = None" "svc x1 = svc x"
    using assms(1,5) by (simp_all add: x1_def authenticate_client_def named_client_def js_or_def fresh_ok_def)
  have "?step x x1"
    unfolding x1_def by (rule sys_step.authenticate [OF assms(3)])
  moreover have "?step\<^sup>*\<^sup>* x1 y"
    unfolding y_def by (rule answer_steps [OF c1(1,2)]) (simp add: c1 s')
  ultimately have "?step\<^sup>*\<^sup>* x y"
    by (rule converse_rtranclp_into_rtranclp)
  moreover have "fresh_ok y"
    using assms(1) c1(1) by (auto simp: y_def x1_def fresh_ok_def on_reply_def onIdentify_def s' Let_def
        authenticate_client_def named_client_def)
  ultimately show ?thesis
    using laws c1(1) by (intro exI [of _ y])
      (simp add: y_def x1_def s' on_reply_def onIdentify_def phase_after_def Let_def authenticate_client_def named_client_def)
qed

lemma access_granted:
  assumes "key_thing s k = Some t" "k \<noteq> []" "connected s c t" "topic_channel topic = Some c"
  obtains t' s' where "can_access k c s = (Inr t', s')"
proof -
  have "c \<noteq> []"
    using assms(4) topic_channel_Some(1) by blast
  then show thesis
    using that access_accepts [OF assms(2) _ assms(1,3)] by blast
qed

lemma publish_succeeds:
  assumes "fresh_ok x" "phases x cl = Connected" "password (clients (adp x) cl) = Some k"
    and "key_thing (svc x) k = Some t" "k \<noteq> []" "connected (svc x) (channelId pl) t" "publish_plan topic = Inr pl"
  shows "\<exists>y. (sys_step can_access identify admin encode decode cfg)\<^sup>*\<^sup>* x y \<and>
    (let m = published_message (clients (adp x) cl) pl payload in
      \<exists>log. trace (adp y) = trace (adp x) @ [log, NatsPublish (subject_of m) (encode m), PublishCb (next_call (adp x)) None])"
proof -
  let ?step = "sys_step can_access identify admin encode decode cfg" and ?n = "next_call (adp x)"
    and ?c = "PublishCall cl k pl payload"
  obtain t' s' where s': "can_access k (channelId pl) (svc x) = (Inr t', s')"
    using access_granted [OF assms(4,5,6) publish_plan_InrD(1) [OF assms(7)]] .
  define x1 where "x1 = x\<lparr>adp := authorizePublish cl topic payload (adp x)\<rparr>"
  define y where "y = (serve can_access identify ?n ?c x1)\<lparr>adp := on_reply encode cfg 0 ?n (Inr t') (adp x1), phases := phase_after ?c (Inr t') (phases x1)\<rparr>"
  have c1: "calls (adp x1) ?n = Some ?c" "replies x1 ?n = None" "svc x1 = svc x"
    using assms(1,3,7) by (simp_all add: x1_def authorizePublish_def proto_text_def fresh_ok_def)
  have "?step x x1"
    unfolding x1_def by (rule sys_step.publish [OF assms(2)])
  moreover have "?step\<^sup>*\<^sup>* x1 y"
    unfolding y_def by (rule answer_steps [OF c1(1,2)]) (simp add: c1 s')
  ultimately have "?step\<^sup>*\<^sup>* x y"
    by (rule converse_rtranclp_into_rtranclp)
  moreover have "trace (adp y) = trace (adp x) @ [Warn [] [Bytes (encode (published_message (clients (adp x) cl) pl payload))],
      NatsPublish (channelTopic pl) (encode (published_message (clients (adp x) cl) pl payload)), PublishCb ?n None]"
    using c1(1) assms(3,7) by (simp add: y_def x1_def s' on_reply_def onAuthorize_publish_def authorizePublish_def Let_def)
  ultimately show ?thesis
    using channelTopic_subject [OF assms(7), of "clients (adp x) cl" payload] by (auto simp: Let_def)
qed

lemma subscribe_succeeds:
  assumes "fresh_ok x" "phases x cl = Connected" "password (clients (adp x) cl) = Some k"
    and "key_thing (svc x) k = Some t" "k \<noteq> []" "connected (svc x) c t" "topic_channel (s_topic pkt) = Some c"
  shows "\<exists>y. (sys_step can_access identify admin encode decode cfg)\<^sup>*\<^sup>* x y \<and>
    trace (adp y) = trace (adp x) @ [SubscribeCb (next_call (adp x)) None (Some pkt)]"
proof -
  let ?step = "sys_step can_access identify admin encode decode cfg" and ?n = "next_call (adp x)"
    and ?c = "SubscribeCall cl k c pkt"
  obtain t' s' where s': "can_access k c (svc x) = (Inr t', s')"
    using access_granted [OF assms(4,5,6,7)] .
  have topic: "parseTopic (s_topic pkt) = Some (s_topic pkt, Some c)"
    using assms(7) by (simp add: parseTopic_eq)
  define x1 where "x1 = x\<lparr>adp := authorizeSubscribe cl pkt (adp x)\<rparr>"
  define y where "y = (serve can_access identify ?n ?c x1)\<lparr>adp := on_reply encode cfg 0 ?n (Inr t') (adp x1), phases := phase_after ?c (Inr t') (phases x1)\<rparr>"
  have c1: "calls (adp x1) ?n = Some ?c" "replies x1 ?n = None" "svc x1 = svc x"
    using assms(1,3) topic by (simp_all add: x1_def authorizeSubscribe_def proto_text_def fresh_ok_def group1_def)
  have "?step x x1"
    unfolding x1_def by (rule sys_step.subscribe [OF assms(2)])
  moreover have "?step\<^sup>*\<^sup>* x1 y"
    unfolding y_def by (rule answer_steps [OF c1(1,2)]) (simp add: c1 s')
  ultimately have "?step\<^sup>*\<^sup>* x y"
    by (rule converse_rtranclp_into_rtranclp)
  moreover have "trace (adp y) = trace (adp x) @ [SubscribeCb ?n None (Some pkt)]"
    using c1(1) topic by (simp add: y_def x1_def s' on_reply_def onAuthorize_subscribe_def authorizeSubscribe_def Let_def)
  ultimately show ?thesis
    by blast
qed

end

end
