(* ===== verification/Things_Cache.thy ===== *)
theory Things_Cache
  imports Things_Service Adapter_System
begin

text \<open>
  The things service keeps two caches in Redis beside its tables. This theory states when they
  agree (\<open>things_inv\<close>), shows that every operation keeps them in agreement under the conditions of
  \<open>cache_safe\<close>, that the cached answers are then those of the tables, and discharges the laws
  of the adapter's interface for the gRPC endpoints: the exact ones while the caches agree, and for every
  sequence of requests that what a cache says was true at some time. The last section has what granting and
  revoking access do, and the operations that leave a cache behind the tables.
\<close>

section \<open>The caches agree with the tables\<close>

lemma redis_key_simps [simp]:
  "tkey k = tkey k' \<longleftrightarrow> k = k'" "tid t = tid t' \<longleftrightarrow> t = t'" "cid c = cid c' \<longleftrightarrow> c = c'"
  "tkey k \<noteq> tid t" "tid t \<noteq> tkey k"
  by (simp_all add: tkey_def tid_def cid_def)

lemmas cache_defs = thingCache_Save_def thingCache_ID_def channelCache_Connect_def
  channelCache_HasThing_def channelCache_Disconnect_def channelCache_Remove_def

text \<open>A key of the cache names its thing, and the thing names the key back; a thing that the cache
  has in a channel is connected to it, unless the thing is gone. The tables keep their keys: one
  row for an identifier, one for a key, and every connection belongs to a thing of its owner.\<close>

definition tables_ok :: "(string \<Rightarrow> string option) \<Rightarrow> things_state \<Rightarrow> bool" where
  "tables_ok pg_uuid s \<longleftrightarrow>
     distinct (map t_id (things_tbl s)) \<and> distinct (map t_key (things_tbl s)) \<and>
     (\<forall>r\<in>set (things_tbl s). pg_uuid (t_id r) = Some (t_id r)) \<and>
     (\<forall>r\<in>set (conns_tbl s). \<exists>t\<in>set (things_tbl s). t_id t = co_thing r \<and> t_owner t = co_owner r)"

definition cache_ok :: "(string \<Rightarrow> string option) \<Rightarrow> things_state \<Rightarrow> bool" where
  "cache_ok pg_uuid s \<longleftrightarrow>
     (\<forall>k t. redis_str s (tkey k) = Some t \<longrightarrow>
        things_RetrieveByKey k s = Some t \<and> redis_str s (tid t) = Some k) \<and>
     (\<forall>c t. t \<in> redis_set s (cid c) \<longrightarrow> t \<in> t_id ` set (things_tbl s) \<longrightarrow>
        channels_HasThingByID pg_uuid c t s)"

definition things_inv :: "(string \<Rightarrow> string option) \<Rightarrow> things_state \<Rightarrow> bool" where
  "things_inv pg_uuid s \<longleftrightarrow> tables_ok pg_uuid s \<and> cache_ok pg_uuid s"

lemma tables_okI:
  assumes "distinct (map t_id (things_tbl s))" "distinct (map t_key (things_tbl s))"
    and "\<And>r. r \<in> set (things_tbl s) \<Longrightarrow> pg_uuid (t_id r) = Some (t_id r)"
    and "\<And>r. r \<in> set (conns_tbl s) \<Longrightarrow> \<exists>t\<in>set (things_tbl s). t_id t = co_thing r \<and> t_owner t = co_owner r"
  shows "tables_ok pg_uuid s"
  using assms by (simp add: tables_ok_def)

lemma tables_okD:
  assumes "tables_ok pg_uuid s"
  shows "distinct (map t_id (things_tbl s))" "distinct (map t_key (things_tbl s))"
    and "r \<in> set (things_tbl s) \<Longrightarrow> pg_uuid (t_id r) = Some (t_id r)"
    and "x \<in> set (conns_tbl s) \<Longrightarrow> \<exists>t\<in>set (things_tbl s). t_id t = co_thing x \<and> t_owner t = co_owner x"
  using assms by (simp_all add: tables_ok_def)

lemma thing_row_unique:
  assumes "tables_ok pg_uuid s" "r \<in> set (things_tbl s)" "r' \<in> set (things_tbl s)"
  shows "t_id r = t_id r' \<Longrightarrow> r = r'" and "t_key r = t_key r' \<Longrightarrow> r = r'"
  using assms by (auto simp: tables_ok_def distinct_map dest: inj_onD)

lemma RetrieveByKey_row:
  assumes "tables_ok pg_uuid s"
  shows "things_RetrieveByKey k s = Some t \<longleftrightarrow> (\<exists>r\<in>set (things_tbl s). t_key r = k \<and> t_id r = t)"
proof
  assume "things_RetrieveByKey k s = Some t"
  then show "\<exists>r\<in>set (things_tbl s). t_key r = k \<and> t_id r = t"
    by (auto simp: things_RetrieveByKey_def find_Some_iff)
next
  assume "\<exists>r\<in>set (things_tbl s). t_key r = k \<and> t_id r = t"
  then obtain r where r: "r \<in> set (things_tbl s)" "t_key r = k" "t_id r = t"
    by blast
  then obtain r' where r': "find (\<lambda>r. t_key r = k) (things_tbl s) = Some r'" "r' \<in> set (things_tbl s)" "t_key r' = k"
    by (cases "find (\<lambda>r. t_key r = k) (things_tbl s)") (auto simp: find_None_iff find_Some_iff)
  have "r' = r"
    using assms r r' thing_row_unique(2) by blast
  with r r' show "things_RetrieveByKey k s = Some t"
    by (simp add: things_RetrieveByKey_def)
qed

lemma RetrieveByKey_inj:
  assumes "tables_ok pg_uuid s" "things_RetrieveByKey k s = Some t" "things_RetrieveByKey k' s = Some t"
  shows "k = k'"
  using assms thing_row_unique(1) unfolding RetrieveByKey_row [OF assms(1)] by blast

text \<open>The uncached answer of the tables.\<close>

definition uncached_access :: "(string \<Rightarrow> string option) \<Rightarrow> string \<Rightarrow> string \<Rightarrow> things_state \<Rightarrow> svc_error + string" where
  "uncached_access pg_uuid chanID key s =
     (case channels_HasThing pg_uuid chanID key s of None \<Rightarrow> Inl ErrUnauthorizedAccess | Some t \<Rightarrow> Inr t)"

lemma channels_HasThing_Some:
  "channels_HasThing pg_uuid c k s = Some t \<longleftrightarrow>
     things_RetrieveByKey k s = Some t \<and> channels_HasThingByID pg_uuid c t s"
  by (auto simp: channels_HasThing_def split: option.splits)

lemma hasThing_connected:
  assumes "things_inv pg_uuid s" and "hasThing c k s = Some t"
  shows "channels_HasThing pg_uuid c k s = Some t"
proof -
  have "redis_str s (tkey k) = Some t" "t \<in> redis_set s (cid c)"
    using assms(2) by (auto simp: hasThing_def cache_defs split: option.splits if_splits)
  moreover from this assms(1) have "things_RetrieveByKey k s = Some t"
    by (auto simp: things_inv_def cache_ok_def)
  moreover from this assms(1) have "t \<in> t_id ` set (things_tbl s)"
    by (auto simp: things_inv_def RetrieveByKey_row)
  ultimately show ?thesis
    using assms(1) by (auto simp: things_inv_def cache_ok_def channels_HasThing_Some)
qed

lemma CanAccessByKey_uncached:
  "things_inv pg_uuid s \<Longrightarrow> fst (CanAccessByKey pg_uuid c k s) = uncached_access pg_uuid c k s"
  using hasThing_connected [of pg_uuid s c k]
  by (auto simp: CanAccessByKey_def uncached_access_def split: option.splits)

text \<open>
  C8. While the caches agree with the tables, \<open>CanAccessByKey\<close> with its two caches gives exactly the
  answer of the tables: the thing that owns the key if it is connected to the channel, and
  an unauthorized-access error otherwise.
\<close>

theorem CanAccessByKey_refines_tables:
  assumes "things_inv pg_uuid s"
  shows "fst (CanAccessByKey pg_uuid chanID key s) = uncached_access pg_uuid chanID key s"
  using assms by (rule CanAccessByKey_uncached)

text \<open>Reading operations keep the tables, and writing to the caches what the tables say keeps the
  invariant.\<close>

lemma tables_cong:
  assumes "things_tbl s' = things_tbl s" "conns_tbl s' = conns_tbl s"
  shows "tables_ok pg_uuid s' = tables_ok pg_uuid s"
    and "things_RetrieveByKey k s' = things_RetrieveByKey k s"
    and "channels_HasThingByID pg_uuid c t s' = channels_HasThingByID pg_uuid c t s"
  using assms by (simp_all add: tables_ok_def things_RetrieveByKey_def channels_HasThingByID_def
      cong: option.case_cong)

lemma thingCache_Save_inv:
  assumes "things_inv pg_uuid s" and "things_RetrieveByKey k s = Some t"
  shows "things_inv pg_uuid (thingCache_Save k t s)"
proof -
  let ?s = "thingCache_Save k t s"
  note cong = tables_cong [of ?s s, unfolded thingCache_Save_def, simplified, folded thingCache_Save_def]
  have "k' = k" if "redis_str s (tkey k') = Some t" for k'
    using assms that RetrieveByKey_inj by (auto simp: things_inv_def cache_ok_def)
  then show ?thesis
    using assms unfolding things_inv_def cache_ok_def cong
    by (auto simp: thingCache_Save_def)
qed

lemma channelCache_Connect_inv:
  assumes "things_inv pg_uuid s" and "channels_HasThingByID pg_uuid c t s"
  shows "things_inv pg_uuid (channelCache_Connect c t s)"
proof -
  let ?s = "channelCache_Connect c t s"
  note cong = tables_cong [of ?s s, unfolded channelCache_Connect_def, simplified, folded channelCache_Connect_def]
  show ?thesis
    using assms unfolding things_inv_def cache_ok_def cong
    by (auto simp: channelCache_Connect_def)
qed

lemma CanAccessByKey_inv:
  assumes "things_inv pg_uuid s" and "CanAccessByKey pg_uuid c k s = (r, s')"
  shows "things_inv pg_uuid s' \<and> things_tbl s' = things_tbl s \<and> conns_tbl s' = conns_tbl s"
proof -
  have "things_inv pg_uuid (channelCache_Connect c t (thingCache_Save k t s))"
    if "channels_HasThing pg_uuid c k s = Some t" for t
  proof (rule channelCache_Connect_inv)
    show "things_inv pg_uuid (thingCache_Save k t s)"
      using that assms(1) thingCache_Save_inv by (simp add: channels_HasThing_Some)
    have "channels_HasThingByID pg_uuid c t (thingCache_Save k t s) = channels_HasThingByID pg_uuid c t s"
      by (rule tables_cong) (simp_all add: thingCache_Save_def)
    then show "channels_HasThingByID pg_uuid c t (thingCache_Save k t s)"
      using that by (simp add: channels_HasThing_Some)
  qed
  with assms show ?thesis
    by (fastforce simp: CanAccessByKey_def channelCache_Connect_def thingCache_Save_def
        split: option.splits)
qed

lemma Identify_inv:
  assumes "things_inv pg_uuid s" and "Identify k s = (r, s')"
  shows "things_inv pg_uuid s' \<and> things_tbl s' = things_tbl s \<and> conns_tbl s' = conns_tbl s"
  using assms thingCache_Save_inv [OF assms(1)]
  by (auto simp: Identify_def thingCache_Save_def split: option.splits)

lemma CanAccessByID_inv:
  assumes "things_inv pg_uuid s" and "CanAccessByID pg_uuid c t s = (r, s')"
  shows "things_inv pg_uuid s' \<and> things_tbl s' = things_tbl s \<and> conns_tbl s' = conns_tbl s"
  using assms channelCache_Connect_inv [OF assms(1)]
  by (auto simp: CanAccessByID_def split: if_splits) (auto simp: channelCache_Connect_def)

lemma Identify_uncached:
  "things_inv pg_uuid s \<Longrightarrow>
   fst (Identify k s) = (case things_RetrieveByKey k s of None \<Rightarrow> Inl ErrUnauthorizedAccess | Some t \<Rightarrow> Inr t)"
  by (auto simp: Identify_def thingCache_ID_def things_inv_def cache_ok_def split: option.splits)

section \<open>Administration\<close>

lemma HasThingByID_row:
  "channels_HasThingByID pg_uuid c t s \<longleftrightarrow>
     (\<exists>r\<in>set (conns_tbl s). pg_uuid c = Some (co_channel r) \<and> pg_uuid t = Some (co_thing r))"
  by (auto simp: channels_HasThingByID_def list_ex_iff split: option.splits)

lemma stored_thing_Some:
  "stored_thing pg_uuid th = Some r \<longleftrightarrow>
     pg_uuid (thing_ID th) = Some (t_id r) \<and> t_owner r = thing_Owner th \<and>
     varchar 4096 (thing_Key th) = Some (t_key r) \<and> varchar 1024 (thing_Name th) = Some (t_name r) \<and>
     t_metadata r = t_metadata (toDBThing th)"
  by (cases r) (auto simp: stored_thing_def toDBThing_def Let_def split: option.splits)

lemma things_Save_Inr:
  "things_Save pg_uuid ths tbl = Inr tbl' \<Longrightarrow>
   \<exists>rows. tbl' = tbl @ rows \<and> list_all2 (\<lambda>th r. stored_thing pg_uuid th = Some r) ths rows \<and>
     (distinct (map t_key tbl) \<longrightarrow> distinct (map t_key tbl'))"
proof (induction ths arbitrary: tbl)
  case (Cons th ths)
  then obtain r where r: "stored_thing pg_uuid th = Some r"
    "\<forall>x\<in>set tbl. t_key x \<noteq> t_key r" "things_Save pg_uuid ths (tbl @ [r]) = Inr tbl'"
    by (auto simp: list_ex_iff split: option.splits if_splits)
  from Cons.IH [OF r(3)] obtain rows where rows: "tbl' = (tbl @ [r]) @ rows"
    "list_all2 (\<lambda>th r. stored_thing pg_uuid th = Some r) ths rows"
    "distinct (map t_key (tbl @ [r])) \<longrightarrow> distinct (map t_key tbl')"
    by blast
  then show ?case
    using r(1,2) by (intro exI [of _ "r # rows"]) auto
qed simp

lemma assign_ids_new:
  "assign_ids owner ths ids = Some (ths', rest) \<Longrightarrow> distinct ids \<Longrightarrow>
   distinct (map thing_ID ths') \<and> set (map thing_ID ths') \<subseteq> set ids \<and> (\<forall>th\<in>set ths'. thing_Owner th = owner)"
proof (induction ths arbitrary: ids ths')
  case (Cons th ths)
  then obtain i ids1 where ids: "ids = i # ids1"
    by (auto split: list.splits)
  with Cons.prems obtain th' ids2 ths2 where
    r: "assign_ids owner ths ids2 = Some (ths2, rest)" "ths' = th' # ths2" "thing_ID th' = i" "thing_Owner th' = owner"
    and ids2: "ids2 = ids1 \<or> (\<exists>x. ids1 = x # ids2)"
    by (fastforce simp: Let_def split: if_splits list.splits option.splits)
  have "distinct ids2" "set ids2 \<subseteq> set ids1" "i \<notin> set ids1"
    using ids ids2 Cons.prems(2) by auto
  with Cons.IH [OF r(1)] r(2-) ids show ?case
    by auto
qed simp

lemma stored_ids:
  assumes "list_all2 (\<lambda>th r. stored_thing pg_uuid th = Some r) ths rows"
    and "\<forall>th\<in>set ths. pg_uuid (thing_ID th) = Some (thing_ID th)"
  shows "map t_id rows = map thing_ID ths"
  using assms by (induction) (auto simp: stored_thing_Some)

lemma insert_connections_Inr:
  "insert_connections pg_uuid owner s cts conns = Inr conns' \<Longrightarrow> set conns \<subseteq> set conns' \<and>
   (\<forall>r\<in>set conns' - set conns. \<exists>t\<in>set (things_tbl s). t_id t = co_thing r \<and> t_owner t = co_owner r)"
proof (induction cts arbitrary: conns)
  case (Cons ct cts)
  then obtain conns1 where c1: "insert_connection pg_uuid owner s ct conns = Inr conns1"
    and c2: "insert_connections pg_uuid owner s cts conns1 = Inr conns'"
    by (auto split: sum.splits)
  have "set conns \<subseteq> set conns1 \<and>
      (\<forall>r\<in>set conns1 - set conns. \<exists>t\<in>set (things_tbl s). t_id t = co_thing r \<and> t_owner t = co_owner r)"
    using c1 by (auto simp: insert_connection_def Let_def list_ex_iff split: option.splits if_splits)
  with Cons.IH [OF c2] show ?case
    by blast
qed simp

lemma things_UpdateKey_Inr:
  assumes "things_UpdateKey pg_uuid owner ident newkey tbl = Inr tbl'" and "distinct (map t_id tbl)"
    "distinct (map t_key tbl)"
  obtains i where "pg_uuid ident = Some i" "map t_id tbl' = map t_id tbl"
    "distinct (map t_key tbl')" "\<And>r. r \<in> set tbl \<Longrightarrow> t_id r \<noteq> i \<Longrightarrow> r \<in> set tbl'"
    "\<And>r. r \<in> set tbl \<Longrightarrow> \<exists>r'\<in>set tbl'. t_id r' = t_id r \<and> t_owner r' = t_owner r"
proof -
  obtain i key where i: "pg_uuid ident = Some i" and key: "varchar 4096 newkey = Some key"
    using assms(1) by (auto simp: things_UpdateKey_def split: option.splits)
  let ?hit = "\<lambda>r. t_owner r = owner \<and> t_id r = i"
  have tbl': "tbl' = map (\<lambda>r. if ?hit r then r\<lparr>t_key := key\<rparr> else r) tbl"
    and uniq: "\<forall>r\<in>set tbl. \<not> ?hit r \<longrightarrow> t_key r \<noteq> key"
    using assms(1) i key by (auto simp: things_UpdateKey_def Let_def list_ex_iff split: if_splits)
  have "inj_on (\<lambda>r. t_key (if ?hit r then r\<lparr>t_key := key\<rparr> else r)) (set tbl)"
  proof (rule inj_onI)
    fix x y
    assume xy: "x \<in> set tbl" "y \<in> set tbl"
      "t_key (if ?hit x then x\<lparr>t_key := key\<rparr> else x) = t_key (if ?hit y then y\<lparr>t_key := key\<rparr> else y)"
    have "inj_on t_id (set tbl)" "inj_on t_key (set tbl)"
      using assms(2,3) by (simp_all add: distinct_map)
    then show "x = y"
      using xy uniq by (auto split: if_splits dest: inj_onD)
  qed
  then have "distinct (map t_key tbl')"
    using assms(2) by (simp add: tbl' distinct_map comp_def)
  moreover have "map t_id tbl' = map t_id tbl"
    by (simp add: tbl')
  moreover have "\<exists>r'\<in>set tbl'. t_id r' = t_id r \<and> t_owner r' = t_owner r" if "r \<in> set tbl" for r
    using that unfolding tbl'
    by (intro bexI [of _ "if ?hit r then r\<lparr>t_key := key\<rparr> else r"]) auto
  moreover have "r \<in> set tbl'" if "r \<in> set tbl" "t_id r \<noteq> i" for r
    using that by (force simp: tbl')
  ultimately show thesis
    using that i by blast
qed

text \<open>The steps of users and adapters: any request of the interface, with nothing assumed about it.\<close>

inductive admin_step ::
  "(string \<Rightarrow> string option) \<Rightarrow> (string \<Rightarrow> string option) \<Rightarrow> things_state \<Rightarrow> things_state \<Rightarrow> bool"
  for pg_uuid auth where
  request: "admin_step pg_uuid auth s (things_serve pg_uuid auth token req s)"

text \<open>When a request keeps the caches in agreement with the tables: new identifiers are canonical, new and not in a
  cache, a key is changed only while the thing is not in the cache, a thing is removed under its canonical text,
  and a channel or a connection only if nothing of it is cached under another text of the same identifiers. The
  service checks none of this.\<close>

fun cache_safe :: "(string \<Rightarrow> string option) \<Rightarrow> things_request \<Rightarrow> things_state \<Rightarrow> bool" where
  "cache_safe pg_uuid (ReqCreateThings ths ids) s \<longleftrightarrow> distinct ids \<and>
     (\<forall>i\<in>set ids. pg_uuid i = Some i \<and> i \<notin> t_id ` set (things_tbl s) \<and> (\<forall>c. i \<notin> redis_set s c))"
| "cache_safe pg_uuid (ReqUpdateKey ident key) s \<longleftrightarrow>
     (case pg_uuid ident of None \<Rightarrow> True | Some i \<Rightarrow> redis_str s (tid i) = None)"
| "cache_safe pg_uuid (ReqRemoveThing ident) s \<longleftrightarrow> pg_uuid ident = None \<or> pg_uuid ident = Some ident"
| "cache_safe pg_uuid (ReqRemoveChannel ident) s \<longleftrightarrow>
     (\<forall>c. redis_set s (cid c) \<noteq> {} \<longrightarrow> pg_uuid c = pg_uuid ident \<longrightarrow> c = ident)"
| "cache_safe pg_uuid (ReqDisconnect chanID thingID) s \<longleftrightarrow>
     (\<forall>c t. t \<in> redis_set s (cid c) \<longrightarrow> pg_uuid c = pg_uuid chanID \<longrightarrow> pg_uuid t = pg_uuid thingID \<longrightarrow>
       c = chanID \<and> t = thingID)"
| "cache_safe pg_uuid req s \<longleftrightarrow> True"

lemma things_invI:
  assumes "tables_ok pg_uuid s"
    and "\<And>k t. redis_str s (tkey k) = Some t \<Longrightarrow>
      (\<exists>r\<in>set (things_tbl s). t_key r = k \<and> t_id r = t) \<and> redis_str s (tid t) = Some k"
    and "\<And>c t. t \<in> redis_set s (cid c) \<Longrightarrow> t \<in> t_id ` set (things_tbl s) \<Longrightarrow>
      \<exists>r\<in>set (conns_tbl s). pg_uuid c = Some (co_channel r) \<and> pg_uuid t = Some (co_thing r)"
  shows "things_inv pg_uuid s"
  using assms by (auto simp: things_inv_def cache_ok_def RetrieveByKey_row HasThingByID_row)

lemma things_invD:
  assumes "things_inv pg_uuid s"
  shows "tables_ok pg_uuid s"
    and "redis_str s (tkey k) = Some t \<Longrightarrow>
      (\<exists>r\<in>set (things_tbl s). t_key r = k \<and> t_id r = t) \<and> redis_str s (tid t) = Some k"
    and "t \<in> redis_set s (cid c) \<Longrightarrow> t \<in> t_id ` set (things_tbl s) \<Longrightarrow>
      \<exists>r\<in>set (conns_tbl s). pg_uuid c = Some (co_channel r) \<and> pg_uuid t = Some (co_thing r)"
  using assms by (auto simp: things_inv_def cache_ok_def RetrieveByKey_row HasThingByID_row)

lemma CreateThings_inv:
  assumes inv: "things_inv pg_uuid s" and step: "CreateThings pg_uuid auth token ths ids s = (e, s')"
    and ids: "distinct ids"
      "\<forall>i\<in>set ids. pg_uuid i = Some i \<and> i \<notin> t_id ` set (things_tbl s) \<and> (\<forall>c. i \<notin> redis_set s c)"
  shows "things_inv pg_uuid s'"
proof (cases "s' = s")
  case False
  then obtain owner ths' rest tbl where ths': "assign_ids owner ths ids = Some (ths', rest)"
    and save: "things_Save pg_uuid ths' (things_tbl s) = Inr tbl" and s': "s' = s\<lparr>things_tbl := tbl\<rparr>"
    using step by (auto simp: CreateThings_def split: option.splits sum.splits)
  note I = things_invD [OF inv]
  note D = tables_okD [OF I(1)]
  obtain rows where tbl: "tbl = things_tbl s @ rows" "distinct (map t_key tbl)"
    and rows: "list_all2 (\<lambda>th r. stored_thing pg_uuid th = Some r) ths' rows"
    using things_Save_Inr [OF save] I(1) unfolding tables_ok_def by blast
  note A = assign_ids_new [OF ths' ids(1)]
  have "map t_id rows = map thing_ID ths'"
    using stored_ids [OF rows] A ids(2) by auto
  then have new: "distinct (map t_id rows)" "\<forall>r\<in>set rows. t_id r \<in> set ids"
    using A by (metis, metis image_eqI list.set_map subsetD)
  show ?thesis
  proof (rule things_invI)
    have "distinct (map t_id tbl)"
      using D(1) new ids(2) by (auto simp: tbl)
    moreover have "pg_uuid (t_id r) = Some (t_id r)" if "r \<in> set tbl" for r
      using that D(3) new(2) ids(2) by (auto simp: tbl)
    moreover have "\<exists>t\<in>set tbl. t_id t = co_thing x \<and> t_owner t = co_owner x" if "x \<in> set (conns_tbl s)" for x
      using D(4) [OF that] unfolding tbl(1) by auto
    ultimately show "tables_ok pg_uuid s'"
      using tbl(2) by (intro tables_okI) (simp_all add: s')
  next
    fix k t
    assume "redis_str s' (tkey k) = Some t"
    then show "(\<exists>r\<in>set (things_tbl s'). t_key r = k \<and> t_id r = t) \<and> redis_str s' (tid t) = Some k"
      using I(2) [of k t] by (auto simp: s' tbl)
  next
    fix c t
    assume "t \<in> redis_set s' (cid c)" "t \<in> t_id ` set (things_tbl s')"
    then show "\<exists>r\<in>set (conns_tbl s'). pg_uuid c = Some (co_channel r) \<and> pg_uuid t = Some (co_thing r)"
      using I(3) [of t c] new(2) ids(2) by (auto simp: s' tbl)
  qed
qed (use inv in simp)

lemma UpdateKey_inv:
  assumes inv: "things_inv pg_uuid s" and step: "UpdateKey pg_uuid auth token ident key s = (e, s')"
    and miss: "\<forall>i. pg_uuid ident = Some i \<longrightarrow> redis_str s (tid i) = None"
  shows "things_inv pg_uuid s'"
proof (cases "s' = s")
  case False
  then obtain owner tbl where up: "things_UpdateKey pg_uuid owner ident key (things_tbl s) = Inr tbl"
    and s': "s' = s\<lparr>things_tbl := tbl\<rparr>"
    using step by (auto simp: UpdateKey_def split: option.splits sum.splits)
  note I = things_invD [OF inv]
  have dist: "distinct (map t_id (things_tbl s))" "distinct (map t_key (things_tbl s))"
    using I(1) by (auto simp: tables_ok_def)
  obtain i where i: "pg_uuid ident = Some i" "map t_id tbl = map t_id (things_tbl s)" "distinct (map t_key tbl)"
    and keep: "\<And>r. r \<in> set (things_tbl s) \<Longrightarrow> t_id r \<noteq> i \<Longrightarrow> r \<in> set tbl"
    and same: "\<And>r. r \<in> set (things_tbl s) \<Longrightarrow> \<exists>r'\<in>set tbl. t_id r' = t_id r \<and> t_owner r' = t_owner r"
    using things_UpdateKey_Inr [OF up dist] by blast
  have ids: "t_id ` set tbl = t_id ` set (things_tbl s)"
    using i(2) by (metis set_map)
  show ?thesis
  proof (rule things_invI)
    have "\<exists>t\<in>set tbl. t_id t = co_thing r \<and> t_owner t = co_owner r" if "r \<in> set (conns_tbl s)" for r
      using I(1) that same unfolding tables_ok_def by metis
    moreover have "pg_uuid (t_id r) = Some (t_id r)" if "r \<in> set tbl" for r
      using I(1) that ids unfolding tables_ok_def by (metis imageE imageI)
    ultimately show "tables_ok pg_uuid s'"
      using i dist by (simp add: tables_ok_def s')
  next
    fix k t
    assume kt: "redis_str s' (tkey k) = Some t"
    then have "t \<noteq> i"
      using I(2) [of k t] miss i(1) by (auto simp: s')
    then show "(\<exists>r\<in>set (things_tbl s'). t_key r = k \<and> t_id r = t) \<and> redis_str s' (tid t) = Some k"
      using I(2) [of k t] kt keep by (auto simp: s')
  next
    fix c t
    assume "t \<in> redis_set s' (cid c)" "t \<in> t_id ` set (things_tbl s')"
    then show "\<exists>r\<in>set (conns_tbl s'). pg_uuid c = Some (co_channel r) \<and> pg_uuid t = Some (co_thing r)"
      using I(3) [of t c] ids by (simp add: s')
  qed
qed (use inv in simp)

lemma thingCache_Remove_tables [simp]:
  "redis_set (thingCache_Remove ident s) = redis_set s" "things_tbl (thingCache_Remove ident s) = things_tbl s"
  "conns_tbl (thingCache_Remove ident s) = conns_tbl s"
  by (auto simp: thingCache_Remove_def split: option.splits)

lemma thingCache_Remove_str:
  assumes "things_inv pg_uuid s" and "redis_str (thingCache_Remove ident s) (tkey k) = Some t"
  shows "redis_str s (tkey k) = Some t" "t \<noteq> ident" "redis_str (thingCache_Remove ident s) (tid t) = Some k"
  using assms(2) things_invD(2) [OF assms(1), of k t]
  by (auto simp: thingCache_Remove_def split: option.splits if_splits)

lemma thingCache_Remove_inv:
  assumes "things_inv pg_uuid s"
  shows "things_inv pg_uuid (thingCache_Remove ident s)"
  using things_invD [OF assms] thingCache_Remove_str [OF assms]
  by (intro things_invI) (auto simp: tables_cong(1) [of "thingCache_Remove ident s" s])

lemma things_Remove_tables_ok:
  assumes "tables_ok pg_uuid s" "pg_uuid ident = Some ident"
  shows "tables_ok pg_uuid (things_Remove pg_uuid owner ident s)" (is "tables_ok pg_uuid ?s")
proof (rule tables_okI)
  note D = tables_okD [OF assms(1)]
  show "\<exists>t\<in>set (things_tbl ?s). t_id t = co_thing x \<and> t_owner t = co_owner x" if "x \<in> set (conns_tbl ?s)" for x
  proof -
    have x: "x \<in> set (conns_tbl s)" "\<not> (co_thing x = ident \<and> co_owner x = owner)"
      using that assms(2) by (simp_all add: things_Remove_def)
    from D(4) [OF x(1)] obtain t where "t \<in> set (things_tbl s)" "t_id t = co_thing x" "t_owner t = co_owner x"
      by blast
    with x(2) assms(2) show ?thesis
      by (auto simp: things_Remove_def)
  qed
qed (use tables_okD [OF assms(1)] assms(2) in \<open>simp_all add: things_Remove_def distinct_map_filter\<close>)

lemma things_Remove_conns:
  assumes "tables_ok pg_uuid s" "pg_uuid ident = Some ident" "x \<in> set (conns_tbl s)"
    and "co_thing x \<in> t_id ` set (things_tbl (things_Remove pg_uuid owner ident s))"
  shows "x \<in> set (conns_tbl (things_Remove pg_uuid owner ident s))"
proof -
  obtain r where r: "r \<in> set (things_tbl s)" "t_id r = co_thing x" "\<not> (t_id r = ident \<and> t_owner r = owner)"
    using assms(2,4) by (auto simp: things_Remove_def)
  obtain y where y: "y \<in> set (things_tbl s)" "t_id y = co_thing x" "t_owner y = co_owner x"
    using tables_okD(4) [OF assms(1,3)] by blast
  then have "y = r"
    using thing_row_unique(1) [OF assms(1) y(1) r(1)] r(2) by simp
  with y r assms(2,3) show ?thesis
    by (auto simp: things_Remove_def)
qed

lemma RemoveThing_inv:
  assumes inv: "things_inv pg_uuid s" and step: "RemoveThing pg_uuid auth token ident s = (e, s')"
    and own: "pg_uuid ident = None \<or> pg_uuid ident = Some ident"
  shows "things_inv pg_uuid s'"
proof -
  let ?s = "thingCache_Remove ident s"
  have inv1: "things_inv pg_uuid ?s"
    by (rule thingCache_Remove_inv [OF inv])
  note I = things_invD [OF inv1]
  have "things_inv pg_uuid (things_Remove pg_uuid owner ident ?s)" if pg: "pg_uuid ident = Some ident" for owner
  proof (rule things_invI)
    let ?r = "things_Remove pg_uuid owner ident ?s"
    show "tables_ok pg_uuid ?r"
      by (rule things_Remove_tables_ok [OF I(1) pg])
    show "(\<exists>r\<in>set (things_tbl ?r). t_key r = k \<and> t_id r = t) \<and> redis_str ?r (tid t) = Some k"
      if "redis_str ?r (tkey k) = Some t" for k t
      using that pg thingCache_Remove_str [OF inv, of ident k t] things_invD(2) [OF inv, of k t]
      by (auto simp: things_Remove_def)
    show "\<exists>x\<in>set (conns_tbl ?r). pg_uuid c = Some (co_channel x) \<and> pg_uuid t = Some (co_thing x)"
      if t: "t \<in> redis_set ?r (cid c)" "t \<in> t_id ` set (things_tbl ?r)" for c t
    proof -
      have "t \<in> t_id ` set (things_tbl ?s)" "t \<in> redis_set ?s (cid c)"
        using t pg by (auto simp: things_Remove_def)
      then obtain x where x: "x \<in> set (conns_tbl ?s)" "pg_uuid c = Some (co_channel x)" "pg_uuid t = Some (co_thing x)"
        "t = co_thing x"
        using I(3) [of t c] tables_okD(3) [OF I(1)] by fastforce
      then show ?thesis
        using things_Remove_conns [OF I(1) pg x(1)] t(2) by blast
    qed
  qed
  then show ?thesis
    using own inv inv1 step by (auto simp: RemoveThing_def things_Remove_def split: option.splits)
qed

lemma conns_subset_tables_ok:
  assumes "tables_ok pg_uuid s" "things_tbl s' = things_tbl s"
    and "\<And>x. x \<in> set (conns_tbl s') \<Longrightarrow> x \<notin> set (conns_tbl s) \<Longrightarrow>
      \<exists>t\<in>set (things_tbl s). t_id t = co_thing x \<and> t_owner t = co_owner x"
  shows "tables_ok pg_uuid s'"
proof (rule tables_okI)
  fix x
  assume "x \<in> set (conns_tbl s')"
  then show "\<exists>t\<in>set (things_tbl s'). t_id t = co_thing x \<and> t_owner t = co_owner x"
    using assms(3) tables_okD(4) [OF assms(1), of x] assms(2) by (cases "x \<in> set (conns_tbl s)") simp_all
qed (use assms(1,2) in \<open>simp_all add: tables_okD\<close>)

text \<open>Names, metadata and channels take no part in the invariant.\<close>

lemma access_rows_inv:
  assumes "things_inv pg_uuid s" "conns_tbl s' = conns_tbl s" "redis_str s' = redis_str s" "redis_set s' = redis_set s"
    and rows: "map (\<lambda>r. (t_id r, t_owner r, t_key r)) (things_tbl s') = map (\<lambda>r. (t_id r, t_owner r, t_key r)) (things_tbl s)"
  shows "things_inv pg_uuid s'"
proof -
  note I = things_invD [OF assms(1)]
  note D = tables_okD [OF I(1)]
  have maps: "map t_id (things_tbl s') = map t_id (things_tbl s)" "map t_key (things_tbl s') = map t_key (things_tbl s)"
    using arg_cong [OF rows, of "map fst"] arg_cong [OF rows, of "map (snd \<circ> snd)"] by (simp_all add: comp_def)
  let ?f = "\<lambda>r. (t_id r, t_owner r, t_key r)"
  have sets: "?f ` set (things_tbl s') = ?f ` set (things_tbl s)"
    using arg_cong [OF rows, of set] by simp
  have row: "\<exists>r\<in>B. t_id r = t_id x \<and> t_owner r = t_owner x \<and> t_key r = t_key x"
    if "x \<in> A" "?f ` A = ?f ` B" for x :: thing_row and A B
  proof -
    have "?f x \<in> ?f ` B"
      using that by blast
    then show ?thesis
      by auto
  qed
  note old_row = row [OF _ sets] and new_row = row [OF _ sets [symmetric]]
  show ?thesis
  proof (rule things_invI)
    show "tables_ok pg_uuid s'"
    proof (rule tables_okI)
      show "pg_uuid (t_id r) = Some (t_id r)" if "r \<in> set (things_tbl s')" for r
        using old_row [OF that] D(3) by metis
      show "\<exists>t\<in>set (things_tbl s'). t_id t = co_thing x \<and> t_owner t = co_owner x" if "x \<in> set (conns_tbl s')" for x
        using that D(4) [of x] new_row assms(2) by metis
    qed (use maps D(1,2) in simp_all)
  next
    fix k t
    assume "redis_str s' (tkey k) = Some t"
    then show "(\<exists>r\<in>set (things_tbl s'). t_key r = k \<and> t_id r = t) \<and> redis_str s' (tid t) = Some k"
      using I(2) [of k t] new_row assms(3) by metis
  next
    fix c t
    assume "t \<in> redis_set s' (cid c)" "t \<in> t_id ` set (things_tbl s')"
    then show "\<exists>r\<in>set (conns_tbl s'). pg_uuid c = Some (co_channel r) \<and> pg_uuid t = Some (co_thing r)"
      using I(3) [of t c] maps(1) assms(2,4) by (metis set_map)
  qed
qed

lemma things_Update_Inr:
  "things_Update pg_uuid th tbl = Inr tbl' \<Longrightarrow>
   map (\<lambda>r. (t_id r, t_owner r, t_key r)) tbl' = map (\<lambda>r. (t_id r, t_owner r, t_key r)) tbl"
  by (auto simp: things_Update_def Let_def split: option.splits if_splits)

lemma UpdateThing_inv:
  assumes "things_inv pg_uuid s" "UpdateThing pg_uuid auth token th s = (e, s')"
  shows "things_inv pg_uuid s'"
  using assms by (intro access_rows_inv [OF assms(1)])
    (auto simp: UpdateThing_def split: option.splits sum.splits dest: things_Update_Inr)

lemma CreateChannels_inv:
  assumes "things_inv pg_uuid s" "CreateChannels pg_uuid auth token chs ids s = (e, s')"
  shows "things_inv pg_uuid s'"
  using assms by (intro access_rows_inv [OF assms(1)]) (auto simp: CreateChannels_def split: option.splits sum.splits)

lemma UpdateChannel_inv:
  assumes "things_inv pg_uuid s" "UpdateChannel pg_uuid auth token ch s = (e, s')"
  shows "things_inv pg_uuid s'"
  using assms by (intro access_rows_inv [OF assms(1)]) (auto simp: UpdateChannel_def split: option.splits sum.splits)

lemma RemoveChannel_inv:
  assumes inv: "things_inv pg_uuid s" and step: "RemoveChannel pg_uuid auth token ident s = (e, s')"
    and texts: "\<forall>c. redis_set s (cid c) \<noteq> {} \<longrightarrow> pg_uuid c = pg_uuid ident \<longrightarrow> c = ident"
  shows "things_inv pg_uuid s'"
proof (cases "s' = s")
  case False
  then obtain owner where s': "s' = channels_Remove pg_uuid owner ident (channelCache_Remove ident s)"
    using step by (auto simp: RemoveChannel_def split: option.splits)
  note I = things_invD [OF inv]
  have same: "things_tbl s' = things_tbl s" "redis_str s' = redis_str s"
    "redis_set s' = (redis_set s)(cid ident := {})"
    by (auto simp: s' channels_Remove_def channelCache_Remove_def split: option.splits)
  have sub: "x \<in> set (conns_tbl s') \<longleftrightarrow>
      x \<in> set (conns_tbl s) \<and> \<not> (pg_uuid ident = Some (co_channel x) \<and> co_owner x = owner)" for x
    by (auto simp: s' channels_Remove_def channelCache_Remove_def split: option.splits)
  show ?thesis
  proof (rule things_invI)
    show "tables_ok pg_uuid s'"
      by (rule conns_subset_tables_ok [OF I(1) same(1)]) (simp add: sub)
  next
    fix k t
    assume "redis_str s' (tkey k) = Some t"
    then show "(\<exists>r\<in>set (things_tbl s'). t_key r = k \<and> t_id r = t) \<and> redis_str s' (tid t) = Some k"
      using I(2) [of k t] by (simp add: same)
  next
    fix c t
    assume t: "t \<in> redis_set s' (cid c)" "t \<in> t_id ` set (things_tbl s')"
    then have c: "c \<noteq> ident" "t \<in> redis_set s (cid c)"
      by (auto simp: same split: if_splits)
    with texts have ne: "pg_uuid c \<noteq> pg_uuid ident"
      by blast
    from I(3) [OF c(2)] t(2) obtain x where
      "x \<in> set (conns_tbl s)" "pg_uuid c = Some (co_channel x)" "pg_uuid t = Some (co_thing x)"
      by (auto simp: same)
    with ne show "\<exists>r\<in>set (conns_tbl s'). pg_uuid c = Some (co_channel r) \<and> pg_uuid t = Some (co_thing r)"
      using sub [of x] by metis
  qed
qed (use inv in simp)

lemma Connect_inv:
  assumes inv: "things_inv pg_uuid s" and step: "Connect pg_uuid auth token chIDs thIDs s = (e, s')"
  shows "things_inv pg_uuid s'"
proof (cases "s' = s")
  case False
  then obtain owner tbl where
    tbl: "insert_connections pg_uuid owner s (List.product chIDs thIDs) (conns_tbl s) = Inr tbl"
    and s': "s' = s\<lparr>conns_tbl := tbl\<rparr>"
    using step by (auto simp: Connect_def channels_Connect_def split: option.splits sum.splits)
  note I = things_invD [OF inv] and C = insert_connections_Inr [OF tbl]
  show ?thesis
  proof (rule things_invI)
    show "tables_ok pg_uuid s'"
      by (rule conns_subset_tables_ok [OF I(1)]) (use C in \<open>simp_all add: s'\<close>)
  next
    fix k t
    assume "redis_str s' (tkey k) = Some t"
    then show "(\<exists>r\<in>set (things_tbl s'). t_key r = k \<and> t_id r = t) \<and> redis_str s' (tid t) = Some k"
      using I(2) [of k t] by (simp add: s')
  next
    fix c t
    assume "t \<in> redis_set s' (cid c)" "t \<in> t_id ` set (things_tbl s')"
    then have "\<exists>r\<in>set (conns_tbl s). pg_uuid c = Some (co_channel r) \<and> pg_uuid t = Some (co_thing r)"
      using I(3) [of t c] by (simp add: s')
    with C show "\<exists>r\<in>set (conns_tbl s'). pg_uuid c = Some (co_channel r) \<and> pg_uuid t = Some (co_thing r)"
      by (auto simp: s')
  qed
qed (use inv in simp)

lemma Disconnect_inv:
  assumes inv: "things_inv pg_uuid s" and step: "Disconnect pg_uuid auth token chanID thingID s = (e, s')"
    and texts: "\<forall>c t. t \<in> redis_set s (cid c) \<longrightarrow> pg_uuid c = pg_uuid chanID \<longrightarrow> pg_uuid t = pg_uuid thingID \<longrightarrow>
      c = chanID \<and> t = thingID"
  shows "things_inv pg_uuid s'"
proof (cases "auth token")
  case None
  with step inv show ?thesis
    by (simp add: Disconnect_def)
next
  case (Some owner)
  note I = things_invD [OF inv]
  have same: "things_tbl s' = things_tbl s" "redis_str s' = redis_str s"
    "redis_set s' = (redis_set s)(cid chanID := redis_set s (cid chanID) - {thingID})"
    using step Some by (auto simp: Disconnect_def Let_def channelCache_Disconnect_def split: sum.splits)
  have sub: "set (conns_tbl s') \<subseteq> set (conns_tbl s)"
    "\<And>x. x \<in> set (conns_tbl s) \<Longrightarrow> x \<notin> set (conns_tbl s') \<Longrightarrow>
       pg_uuid chanID = Some (co_channel x) \<and> pg_uuid thingID = Some (co_thing x)"
    using step Some
    by (auto simp: Disconnect_def Let_def channelCache_Disconnect_def channels_Disconnect_def
        split: sum.splits option.splits if_splits)
  show ?thesis
  proof (rule things_invI)
    show "tables_ok pg_uuid s'"
      by (rule conns_subset_tables_ok [OF I(1) same(1)]) (use sub(1) in auto)
  next
    fix k t
    assume "redis_str s' (tkey k) = Some t"
    then show "(\<exists>r\<in>set (things_tbl s'). t_key r = k \<and> t_id r = t) \<and> redis_str s' (tid t) = Some k"
      using I(2) [of k t] by (simp add: same)
  next
    fix c t
    assume t: "t \<in> redis_set s' (cid c)" "t \<in> t_id ` set (things_tbl s')"
    then have c: "\<not> (c = chanID \<and> t = thingID)" "t \<in> redis_set s (cid c)"
      by (auto simp: same split: if_splits)
    from I(3) [OF c(2)] t(2) obtain x where
      x: "x \<in> set (conns_tbl s)" "pg_uuid c = Some (co_channel x)" "pg_uuid t = Some (co_thing x)"
      by (auto simp: same)
    then have "x \<in> set (conns_tbl s')"
      using sub(2) [of x] texts c by metis
    with x show "\<exists>r\<in>set (conns_tbl s'). pg_uuid c = Some (co_channel r) \<and> pg_uuid t = Some (co_thing r)"
      by metis
  qed
qed

lemma things_serve_inv:
  assumes "things_inv pg_uuid s" and "cache_safe pg_uuid req s"
  shows "things_inv pg_uuid (things_serve pg_uuid auth token req s)"
proof (cases req)
  case (ReqCreateThings ths ids)
  then show ?thesis
    using assms CreateThings_inv [OF assms(1) prod.collapse [symmetric]] by simp
next
  case (ReqUpdateThing th)
  then show ?thesis
    using UpdateThing_inv [OF assms(1) prod.collapse [symmetric]] by simp
next
  case (ReqUpdateKey ident key)
  then show ?thesis
    using assms UpdateKey_inv [OF assms(1) prod.collapse [symmetric]] by (simp split: option.splits)
next
  case (ReqRemoveThing ident)
  then show ?thesis
    using assms RemoveThing_inv [OF assms(1) prod.collapse [symmetric]] by simp
next
  case (ReqCreateChannels chs ids)
  then show ?thesis
    using CreateChannels_inv [OF assms(1) prod.collapse [symmetric]] by simp
next
  case (ReqUpdateChannel ch)
  then show ?thesis
    using UpdateChannel_inv [OF assms(1) prod.collapse [symmetric]] by simp
next
  case (ReqRemoveChannel ident)
  then show ?thesis
    using assms RemoveChannel_inv [OF assms(1) prod.collapse [symmetric]] by simp
next
  case (ReqConnect chIDs thIDs)
  then show ?thesis
    using Connect_inv [OF assms(1) prod.collapse [symmetric]] by simp
next
  case (ReqDisconnect chanID thingID)
  then show ?thesis
    using assms Disconnect_inv [OF assms(1) prod.collapse [symmetric]] by simp
next
  case (ReqCanAccessByKey chanID key)
  then show ?thesis
    using CanAccessByKey_inv [OF assms(1) prod.collapse [symmetric]] by simp
next
  case (ReqCanAccessByID chanID thingID)
  then show ?thesis
    using CanAccessByID_inv [OF assms(1) prod.collapse [symmetric]] by simp
next
  case (ReqIdentify key)
  then show ?thesis
    using Identify_inv [OF assms(1) prod.collapse [symmetric]] by simp
qed

text \<open>A sequence of requests of users with their tokens, each of them safe in the state that it finds.\<close>

fun things_serve_all ::
  "(string \<Rightarrow> string option) \<Rightarrow> (string \<Rightarrow> string option) \<Rightarrow> (string \<times> things_request) list \<Rightarrow> things_state \<Rightarrow> things_state" where
  "things_serve_all pg_uuid auth [] s = s"
| "things_serve_all pg_uuid auth ((token, req) # reqs) s =
     things_serve_all pg_uuid auth reqs (things_serve pg_uuid auth token req s)"

fun all_cache_safe ::
  "(string \<Rightarrow> string option) \<Rightarrow> (string \<Rightarrow> string option) \<Rightarrow> (string \<times> things_request) list \<Rightarrow> things_state \<Rightarrow> bool" where
  "all_cache_safe pg_uuid auth [] s \<longleftrightarrow> True"
| "all_cache_safe pg_uuid auth ((token, req) # reqs) s \<longleftrightarrow>
     cache_safe pg_uuid req s \<and> all_cache_safe pg_uuid auth reqs (things_serve pg_uuid auth token req s)"

lemma CanAccessByKey_Inr:
  assumes "things_inv pg_uuid s"
  shows "fst (CanAccessByKey pg_uuid c k s) = Inr t \<longleftrightarrow>
    things_RetrieveByKey k s = Some t \<and> channels_HasThingByID pg_uuid c t s"
  using assms
  by (auto simp: CanAccessByKey_uncached uncached_access_def channels_HasThing_Some split: option.splits)
    (metis channels_HasThing_Some option.distinct(1))+

section \<open>The service behind the adapter's interface\<close>

lemma grpc_CanAccessByKey_Inr:
  "grpc_CanAccessByKey pg_uuid k c s = (Inr t, s') \<longleftrightarrow>
     c \<noteq> [] \<and> k \<noteq> [] \<and> CanAccessByKey pg_uuid c k s = (Inr t, s')"
  by (cases "CanAccessByKey pg_uuid c k s")
    (auto simp: grpc_CanAccessByKey_def encode_response_def split: sum.splits)

lemma grpc_Identify_Inr: "grpc_Identify k s = (Inr t, s') \<longleftrightarrow> Identify k s = (Inr t, s')"
  by (cases "Identify k s") (auto simp: grpc_Identify_def encode_response_def split: sum.splits)

lemma grpc_CanAccessByKey_tables:
  assumes "things_inv pg_uuid s" "grpc_CanAccessByKey pg_uuid k c s = (r, s')"
  shows "things_inv pg_uuid s' \<and> things_tbl s' = things_tbl s \<and> conns_tbl s' = conns_tbl s"
proof (cases "s' = s")
  case False
  then have "snd (CanAccessByKey pg_uuid c k s) = s'"
    using assms(2) by (auto simp: grpc_CanAccessByKey_def encode_response_def split: if_splits)
  then show ?thesis
    using CanAccessByKey_inv [OF assms(1), of c k] by (metis prod.collapse)
qed (use assms(1) in simp)

lemma grpc_Identify_tables:
  assumes "things_inv pg_uuid s" "grpc_Identify k s = (r, s')"
  shows "things_inv pg_uuid s' \<and> things_tbl s' = things_tbl s \<and> conns_tbl s' = conns_tbl s"
proof -
  have "snd (Identify k s) = s'"
    using assms(2) by (simp add: grpc_Identify_def encode_response_def)
  then show ?thesis
    using Identify_inv [OF assms(1), of k] by (metis prod.collapse)
qed

interpretation gs: things_service "grpc_CanAccessByKey pg_uuid" grpc_Identify "things_inv pg_uuid"
  "\<lambda>s k. things_RetrieveByKey k s" "\<lambda>s c t. channels_HasThingByID pg_uuid c t s" for pg_uuid
proof unfold_locales
  fix s :: things_state and token chan t s'
  assume inv: "things_inv pg_uuid s"
  { assume "grpc_CanAccessByKey pg_uuid token chan s = (Inr t, s')"
    then show "things_RetrieveByKey token s = Some t \<and> channels_HasThingByID pg_uuid chan t s"
      using CanAccessByKey_Inr [OF inv, of chan token t] by (simp add: grpc_CanAccessByKey_Inr) }
  { assume "token \<noteq> []" "chan \<noteq> []" "things_RetrieveByKey token s = Some t" "channels_HasThingByID pg_uuid chan t s"
    then show "fst (grpc_CanAccessByKey pg_uuid token chan s) = Inr t"
      using CanAccessByKey_Inr [OF inv, of chan token t]
      by (simp add: grpc_CanAccessByKey_def encode_response_def) }
  { fix r
    assume "grpc_CanAccessByKey pg_uuid token chan s = (r, s')"
    then show "things_inv pg_uuid s' \<and> (\<lambda>k. things_RetrieveByKey k s') = (\<lambda>k. things_RetrieveByKey k s) \<and>
        (\<lambda>c t. channels_HasThingByID pg_uuid c t s') = (\<lambda>c t. channels_HasThingByID pg_uuid c t s)"
      using grpc_CanAccessByKey_tables [OF inv] tables_cong [of s' s] by simp }
  fix key
  { assume "grpc_Identify key s = (Inr t, s')"
    then show "things_RetrieveByKey key s = Some t"
      using Identify_uncached [OF inv, of key] by (auto simp: grpc_Identify_Inr split: option.splits) }
  { assume "things_RetrieveByKey key s = Some t"
    then show "fst (grpc_Identify key s) = Inr t"
      using Identify_uncached [OF inv, of key] by (simp add: grpc_Identify_def encode_response_def) }
  { fix r
    assume "grpc_Identify key s = (r, s')"
    then show "things_inv pg_uuid s' \<and> (\<lambda>k. things_RetrieveByKey k s') = (\<lambda>k. things_RetrieveByKey k s) \<and>
        (\<lambda>c t. channels_HasThingByID pg_uuid c t s') = (\<lambda>c t. channels_HasThingByID pg_uuid c t s)"
      using grpc_Identify_tables [OF inv] tables_cong [of s' s] by simp }
qed

lemma grpc_steps:
  "grpc_CanAccessByKey pg_uuid k c s = (r, s') \<Longrightarrow> (admin_step pg_uuid auth)\<^sup>*\<^sup>* s s'"
  "grpc_Identify k s = (r', s'') \<Longrightarrow> (admin_step pg_uuid auth)\<^sup>*\<^sup>* s s''"
proof -
  assume g: "grpc_CanAccessByKey pg_uuid k c s = (r, s')"
  show "(admin_step pg_uuid auth)\<^sup>*\<^sup>* s s'"
  proof (cases "s' = s")
    case False
    then have "s' = things_serve pg_uuid auth [] (ReqCanAccessByKey c k) s"
      using g by (auto simp: grpc_CanAccessByKey_def encode_response_def split: if_splits)
    then show ?thesis
      using admin_step.request [of pg_uuid auth s "[]"] by blast
  qed simp
next
  assume "grpc_Identify k s = (r', s'')"
  then have "s'' = things_serve pg_uuid auth [] (ReqIdentify k) s"
    by (auto simp: grpc_Identify_def encode_response_def)
  then show "(admin_step pg_uuid auth)\<^sup>*\<^sup>* s s''"
    using admin_step.request [of pg_uuid auth s "[]"] by blast
qed

text \<open>An entry of a cache is old, or the tables have it.\<close>

lemma redis_unchanged:
  "redis_str (snd (CreateThings pg_uuid auth token ths ids s)) = redis_str s" "redis_set (snd (CreateThings pg_uuid auth token ths ids s)) = redis_set s"
  "redis_str (snd (UpdateThing pg_uuid auth token th s)) = redis_str s" "redis_set (snd (UpdateThing pg_uuid auth token th s)) = redis_set s"
  "redis_str (snd (UpdateKey pg_uuid auth token i k s)) = redis_str s" "redis_set (snd (UpdateKey pg_uuid auth token i k s)) = redis_set s"
  "redis_str (snd (CreateChannels pg_uuid auth token chs ids s)) = redis_str s" "redis_set (snd (CreateChannels pg_uuid auth token chs ids s)) = redis_set s"
  "redis_str (snd (UpdateChannel pg_uuid auth token ch s)) = redis_str s" "redis_set (snd (UpdateChannel pg_uuid auth token ch s)) = redis_set s"
  "redis_str (snd (Connect pg_uuid auth token cs ts s)) = redis_str s" "redis_set (snd (Connect pg_uuid auth token cs ts s)) = redis_set s"
  by (simp_all add: CreateThings_def UpdateThing_def UpdateKey_def CreateChannels_def UpdateChannel_def Connect_def
      split: option.splits sum.splits prod.splits)

lemma redis_removed:
  "redis_str (snd (RemoveThing pg_uuid auth token i s)) \<subseteq>\<^sub>m redis_str s" "redis_set (snd (RemoveThing pg_uuid auth token i s)) = redis_set s"
  "redis_str (snd (RemoveChannel pg_uuid auth token i s)) = redis_str s" "redis_set (snd (RemoveChannel pg_uuid auth token i s)) x \<subseteq> redis_set s x"
  "redis_str (snd (Disconnect pg_uuid auth token c t s)) = redis_str s" "redis_set (snd (Disconnect pg_uuid auth token c t s)) x \<subseteq> redis_set s x"
  by (auto simp: RemoveThing_def RemoveChannel_def Disconnect_def things_Remove_def channels_Remove_def thingCache_Remove_def
      channelCache_Remove_def channelCache_Disconnect_def map_le_def Let_def split: option.splits sum.splits)

lemma key_cache_filled:
  assumes "redis_str (things_serve pg_uuid auth token req s) (tkey k) = Some t"
  shows "redis_str s (tkey k) = Some t \<or> things_RetrieveByKey k s = Some t"
proof (cases req)
  case (ReqRemoveThing ident)
  with assms redis_removed(1) [of pg_uuid auth token ident s] show ?thesis
    by (auto simp: map_le_def dom_def)
next
  case (ReqCanAccessByKey c key)
  with assms show ?thesis
    by (auto simp: CanAccessByKey_def cache_defs channels_HasThing_Some split: option.splits if_splits)
next
  case (ReqCanAccessByID c t)
  with assms show ?thesis
    by (auto simp: CanAccessByID_def cache_defs split: if_splits)
next
  case (ReqIdentify key)
  with assms show ?thesis
    by (auto simp: Identify_def cache_defs split: option.splits if_splits)
qed (use assms in \<open>simp_all add: redis_unchanged redis_removed\<close>)

lemma conn_cache_filled:
  assumes "t \<in> redis_set (things_serve pg_uuid auth token req s) (cid c)"
  shows "t \<in> redis_set s (cid c) \<or> channels_HasThingByID pg_uuid c t s"
proof (cases req)
  case (ReqRemoveChannel ident)
  with assms redis_removed(4) show ?thesis
    by fastforce
next
  case (ReqDisconnect chanID thingID)
  with assms redis_removed(6) show ?thesis
    by fastforce
next
  case (ReqCanAccessByKey c key)
  with assms show ?thesis
    by (auto simp: CanAccessByKey_def cache_defs channels_HasThing_Some split: option.splits if_splits)
next
  case (ReqCanAccessByID c t)
  with assms show ?thesis
    by (auto simp: CanAccessByID_def cache_defs split: if_splits)
next
  case (ReqIdentify key)
  with assms show ?thesis
    by (auto simp: Identify_def cache_defs split: option.splits)
qed (use assms in \<open>simp_all add: redis_unchanged redis_removed\<close>)

interpretation ms: managed_things "grpc_CanAccessByKey pg_uuid" grpc_Identify "things_inv pg_uuid"
  "\<lambda>s k. things_RetrieveByKey k s" "\<lambda>s c t. channels_HasThingByID pg_uuid c t s" "admin_step pg_uuid auth"
  "\<lambda>s k t. redis_str s (tkey k) = Some t" "\<lambda>s c t. t \<in> redis_set s (cid c)"
  for pg_uuid auth
proof unfold_locales
  fix s s' :: things_state and k c t :: string
  show "(admin_step pg_uuid auth)\<^sup>*\<^sup>* s s'" if "grpc_CanAccessByKey pg_uuid k c s = (r, s')" for r
    using that by (rule grpc_steps)
  show "(admin_step pg_uuid auth)\<^sup>*\<^sup>* s s'" if "grpc_Identify k s = (r, s')" for r
    using that by (rule grpc_steps)
  show "redis_str s (tkey k) = Some t \<or> things_RetrieveByKey k s = Some t"
    if "admin_step pg_uuid auth s s'" "redis_str s' (tkey k) = Some t"
    using that by (auto elim!: admin_step.cases dest: key_cache_filled)
  show "t \<in> redis_set s (cid c) \<or> channels_HasThingByID pg_uuid c t s"
    if "admin_step pg_uuid auth s s'" "t \<in> redis_set s' (cid c)"
    using that by (auto elim!: admin_step.cases dest: conn_cache_filled)
  show "(redis_str s (tkey k) = Some t \<or> things_RetrieveByKey k s = Some t) \<and>
      (t \<in> redis_set s (cid c) \<or> channels_HasThingByID pg_uuid c t s)" if "grpc_CanAccessByKey pg_uuid k c s = (Inr t, s')"
    using that by (auto simp: grpc_CanAccessByKey_Inr CanAccessByKey_def hasThing_def cache_defs channels_HasThing_Some
        split: option.splits if_splits)
  show "redis_str s (tkey k) = Some t \<or> things_RetrieveByKey k s = Some t" if "grpc_Identify k s = (Inr t, s')"
    using that by (auto simp: grpc_Identify_Inr Identify_def cache_defs split: option.splits)
  show "\<exists>t' s'. grpc_CanAccessByKey pg_uuid k c s = (Inr t', s')"
    if "k \<noteq> []" "c \<noteq> []" "things_RetrieveByKey k s = Some t" "channels_HasThingByID pg_uuid c t s"
    using that by (auto simp: grpc_CanAccessByKey_Inr CanAccessByKey_def channels_HasThing_def split: option.splits)
qed

text \<open>Caches that say nothing that the tables do not say; empty ones among them.\<close>

definition caches_true :: "(string \<Rightarrow> string option) \<Rightarrow> things_state \<Rightarrow> bool" where
  "caches_true pg_uuid s \<longleftrightarrow>
     (\<forall>k t. redis_str s (tkey k) = Some t \<longrightarrow> things_RetrieveByKey k s = Some t) \<and>
     (\<forall>c t. t \<in> redis_set s (cid c) \<longrightarrow> channels_HasThingByID pg_uuid c t s)"

lemma caches_trueD:
  assumes "caches_true pg_uuid s"
  shows "redis_str s (tkey k) = Some t \<Longrightarrow> things_RetrieveByKey k s = Some t"
    and "t \<in> redis_set s (cid c) \<Longrightarrow> channels_HasThingByID pg_uuid c t s"
  using assms by (simp_all add: caches_true_def)

section \<open>Properties\<close>

text \<open>A service with one thing and one channel, connected, with nothing or everything in its caches.\<close>

definition sample_things :: things_state where
  "sample_things = \<lparr> things_tbl = [\<lparr> t_id = ''t1'', t_owner = ''joe'', t_key = ''k1'', t_name = ''pump'', t_metadata = [] \<rparr>],
     channels_tbl = [\<lparr> c_id = ''c1'', c_owner = ''joe'', c_name = ''pond'', c_metadata = None \<rparr>],
     conns_tbl = [\<lparr> co_channel = ''c1'', co_thing = ''t1'', co_owner = ''joe'' \<rparr>],
     redis_str = (\<lambda>_. None), redis_set = (\<lambda>_. {}) \<rparr>"

definition sample_cached :: things_state where
  "sample_cached = snd (CanAccessByKey Some ''c1'' ''k1'' sample_things)"

lemma sample_things_inv: "things_inv Some sample_things"
  by (simp add: things_inv_def tables_ok_def cache_ok_def sample_things_def)

lemma sample_cached_inv: "things_inv Some sample_cached"
  using CanAccessByKey_inv [OF sample_things_inv, of "''c1''" "''k1''"]
  by (cases "CanAccessByKey Some ''c1'' ''k1'' sample_things") (auto simp: sample_cached_def)

lemma sample_cached_eq:
  "sample_cached = sample_things\<lparr>redis_str := [''thing_key:k1'' \<mapsto> ''t1'', ''thing:t1'' \<mapsto> ''k1''],
     redis_set := (\<lambda>_. {})(''channel:c1'' := {''t1''})\<rparr>"
  by (simp add: sample_cached_def sample_things_def CanAccessByKey_def hasThing_def cache_defs
      channels_HasThing_def things_RetrieveByKey_def channels_HasThingByID_def tkey_def tid_def cid_def)

theorem CanAccessByKey_refines_tables_witness:
  "fst (CanAccessByKey Some ''c1'' ''k1'' sample_cached) = Inr ''t1'' \<and>
   fst (CanAccessByKey Some ''c2'' ''k1'' sample_cached) = Inl ErrUnauthorizedAccess"
  using CanAccessByKey_refines_tables [OF sample_cached_inv, of "''c1''" "''k1''"]
    CanAccessByKey_refines_tables [OF sample_cached_inv, of "''c2''" "''k1''"]
  by (simp add: uncached_access_def channels_HasThing_def things_RetrieveByKey_def
      channels_HasThingByID_def sample_cached_eq sample_things_def)



lemma insert_connections_all:
  "insert_connections pg_uuid owner s cts conns = Inr conns' \<Longrightarrow> (c, t) \<in> set cts \<Longrightarrow>
   \<exists>r\<in>set conns'. pg_uuid c = Some (co_channel r) \<and> pg_uuid t = Some (co_thing r)"
proof (induction cts arbitrary: conns)
  case (Cons ct cts)
  then obtain conns1 where c1: "insert_connection pg_uuid owner s ct conns = Inr conns1"
    and c2: "insert_connections pg_uuid owner s cts conns1 = Inr conns'"
    by (auto split: sum.splits)
  show ?case
  proof (cases "ct = (c, t)")
    case True
    with c1 have "\<exists>r\<in>set conns1. pg_uuid c = Some (co_channel r) \<and> pg_uuid t = Some (co_thing r)"
      by (auto simp: insert_connection_def Let_def split: option.splits if_splits)
    then show ?thesis
      using insert_connections_Inr [OF c2] by blast
  qed (use Cons.IH [OF c2] Cons.prems(2) in auto)
qed simp

text \<open>
  C27. Connecting grants: after \<open>Connect\<close> has returned without an error, every key of a thing of its
  list has access to every channel of its list.
\<close>

theorem Connect_grants:
  assumes "things_inv pg_uuid s" and "Connect pg_uuid auth token chIDs thIDs s = (None, s')"
    and "c \<in> set chIDs" "t \<in> set thIDs" and "things_RetrieveByKey k s = Some t"
  shows "fst (CanAccessByKey pg_uuid c k s') = Inr t"
proof -
  obtain owner tbl where
    tbl: "insert_connections pg_uuid owner s (List.product chIDs thIDs) (conns_tbl s) = Inr tbl"
    and s': "s' = s\<lparr>conns_tbl := tbl\<rparr>"
    using assms(2) by (auto simp: Connect_def channels_Connect_def split: option.splits sum.splits)
  have "channels_HasThingByID pg_uuid c t s'"
    using insert_connections_all [OF tbl, of c t] assms(3,4) by (auto simp: s' HasThingByID_row)
  moreover have "things_RetrieveByKey k s' = Some t"
    using assms(5) by (simp add: s' things_RetrieveByKey_def)
  ultimately show ?thesis
    using CanAccessByKey_Inr [OF Connect_inv [OF assms(1,2)]] by simp
qed

definition sample_two_channels :: things_state where
  "sample_two_channels = sample_things\<lparr>channels_tbl := channels_tbl sample_things @ [\<lparr> c_id = ''c2'', c_owner = ''joe'', c_name = ''pond'', c_metadata = None \<rparr>]\<rparr>"

theorem Connect_grants_witness:
  "fst (CanAccessByKey Some ''c2'' ''k1'' (snd (Connect Some Some ''joe'' [''c2''] [''t1''] sample_two_channels)))
     = Inr ''t1''"
proof -
  have "things_inv Some sample_two_channels"
    by (simp add: things_inv_def tables_ok_def cache_ok_def sample_two_channels_def sample_things_def)
  moreover have "fst (Connect Some Some ''joe'' [''c2''] [''t1''] sample_two_channels) = None"
    by (simp add: Connect_def channels_Connect_def insert_connection_def Let_def
        sample_two_channels_def sample_things_def)
  ultimately show ?thesis
    using Connect_grants [of Some sample_two_channels Some "''joe''" "[''c2'']" "[''t1'']" _ "''c2''" "''t1''" "''k1''"]
    by (cases "Connect Some Some ''joe'' [''c2''] [''t1''] sample_two_channels")
      (simp add: things_RetrieveByKey_def sample_two_channels_def sample_things_def)
qed

lemma Disconnect_no_row:
  assumes "tables_ok pg_uuid s" and "Disconnect pg_uuid auth token chanID thingID s = (None, s')"
    and "pg_uuid c = pg_uuid chanID" "pg_uuid t = pg_uuid thingID"
  shows "\<not> channels_HasThingByID pg_uuid c t s'"
proof
  assume "channels_HasThingByID pg_uuid c t s'"
  then obtain r where r: "r \<in> set (conns_tbl s')" "pg_uuid chanID = Some (co_channel r)" "pg_uuid thingID = Some (co_thing r)"
    using assms(3,4) by (auto simp: HasThingByID_row)
  obtain owner where ow: "auth token = Some owner"
    using assms(2) by (auto simp: Disconnect_def split: option.splits)
  let ?hit = "\<lambda>x. co_channel x = co_channel r \<and> co_thing x = co_thing r \<and> co_owner x = owner"
  obtain x where x: "x \<in> set (conns_tbl s)" "?hit x"
    and s': "conns_tbl s' = filter (\<lambda>x. \<not> ?hit x) (conns_tbl s)"
    using assms(2) ow r(2,3)
    by (auto simp: Disconnect_def Let_def channels_Disconnect_def channelCache_Disconnect_def list_ex_iff
        split: if_splits)
  have r_s: "r \<in> set (conns_tbl s)" "co_owner r \<noteq> owner"
    using r(1) by (simp_all add: s')
  obtain a b where "a \<in> set (things_tbl s)" "t_id a = co_thing r" "t_owner a = co_owner r"
    "b \<in> set (things_tbl s)" "t_id b = co_thing x" "t_owner b = co_owner x"
    using tables_okD(4) [OF assms(1) r_s(1)] tables_okD(4) [OF assms(1) x(1)] by blast
  with thing_row_unique(1) [OF assms(1), of a b] x(2) r_s(2) show False
    by simp
qed

text \<open>
  C28. What disconnecting revokes: after \<open>Disconnect\<close> has returned without an error, a key opens the channel as that thing,
  under whatever texts the two are named, exactly if the key and the connection were cached and the connection is cached
  under other texts than the ones given to \<open>Disconnect\<close>. So under the texts that were given the access is gone, from the
  tables and from the caches, but under an upper-case text of the channel, say, that the thing has used before, it remains.
\<close>

theorem Disconnect_revokes_iff:
  assumes "things_inv pg_uuid s" and "Disconnect pg_uuid auth token chanID thingID s = (None, s')"
    and "pg_uuid c = pg_uuid chanID" "pg_uuid t = pg_uuid thingID"
  shows "fst (CanAccessByKey pg_uuid c k s') = Inr t \<longleftrightarrow>
    redis_str s (tkey k) = Some t \<and> t \<in> redis_set s (cid c) \<and> \<not> (c = chanID \<and> t = thingID)"
proof -
  have same: "redis_str s' = redis_str s" "redis_set s' = (redis_set s)(cid chanID := redis_set s (cid chanID) - {thingID})"
    using assms(2) by (auto simp: Disconnect_def Let_def channelCache_Disconnect_def split: option.splits sum.splits)
  have "channels_HasThing pg_uuid c k s' \<noteq> Some t"
    using Disconnect_no_row [OF things_invD(1) [OF assms(1)] assms(2-4)] by (simp add: channels_HasThing_Some)
  then have "fst (CanAccessByKey pg_uuid c k s') = Inr t \<longleftrightarrow> hasThing c k s' = Some t"
    by (auto simp: CanAccessByKey_def split: option.splits)
  also have "\<dots> \<longleftrightarrow> redis_str s (tkey k) = Some t \<and> t \<in> redis_set s (cid c) \<and> \<not> (c = chanID \<and> t = thingID)"
    by (auto simp: hasThing_def cache_defs same split: option.splits if_splits)
  finally show ?thesis .
qed

text \<open>Two texts for one identifier, and a thing that has used the channel under both.\<close>

definition pg_caps :: "string \<Rightarrow> string option" where
  "pg_caps s = Some (if s = ''C1'' then ''c1'' else s)"

definition sample_caps :: things_state where
  "sample_caps = snd (CanAccessByKey pg_caps ''C1'' ''k1'' (snd (CanAccessByKey pg_caps ''c1'' ''k1'' sample_things)))"

lemma sample_caps_eq:
  "sample_caps = sample_things\<lparr>redis_str := [''thing_key:k1'' \<mapsto> ''t1'', ''thing:t1'' \<mapsto> ''k1''],
     redis_set := (\<lambda>_. {})(''channel:c1'' := {''t1''}, ''channel:C1'' := {''t1''})\<rparr>"
  by (auto simp: sample_caps_def sample_things_def CanAccessByKey_def hasThing_def cache_defs pg_caps_def
      channels_HasThing_def things_RetrieveByKey_def channels_HasThingByID_def tkey_def tid_def cid_def)

lemma sample_caps_inv: "things_inv pg_caps sample_caps"
proof -
  have 0: "things_inv pg_caps sample_things"
    by (simp add: things_inv_def tables_ok_def cache_ok_def sample_things_def pg_caps_def)
  show ?thesis
    using CanAccessByKey_inv [OF conjunct1 [OF CanAccessByKey_inv [OF 0 prod.collapse [symmetric]]] prod.collapse [symmetric]]
    unfolding sample_caps_def by blast
qed

theorem Disconnect_revokes_iff_witness:
  "(let s' = snd (Disconnect pg_caps Some ''joe'' ''c1'' ''t1'' sample_caps) in
     fst (CanAccessByKey pg_caps ''c1'' ''k1'' s') \<noteq> Inr ''t1'' \<and> fst (CanAccessByKey pg_caps ''C1'' ''k1'' s') = Inr ''t1'' \<and>
     conns_tbl s' = [])"
proof -
  let ?s' = "snd (Disconnect pg_caps Some ''joe'' ''c1'' ''t1'' sample_caps)"
  have d: "Disconnect pg_caps Some ''joe'' ''c1'' ''t1'' sample_caps = (None, ?s')" and "conns_tbl ?s' = []"
    by (simp_all add: Disconnect_def Let_def channels_Disconnect_def sample_caps_eq sample_things_def cache_defs pg_caps_def)
  moreover have "fst (CanAccessByKey pg_caps c ''k1'' ?s') = Inr ''t1'' \<longleftrightarrow> c = ''C1''" if "c \<in> {''c1'', ''C1''}" for c
    using Disconnect_revokes_iff [OF sample_caps_inv d, of c "''t1''" "''k1''"] that
    by (auto simp: pg_caps_def sample_caps_eq tkey_def cid_def)
  ultimately show ?thesis
    by (simp add: Let_def)
qed

text \<open>
  C35. Changing a key does not revoke the old one while it is cached: \<open>UpdateKey\<close> never touches the cache, so
  after it has returned without an error the old key still opens every channel cached for the thing, although
  no thing of the tables has that key any more.
\<close>

theorem UpdateKey_old_key_accepted:
  assumes "things_inv pg_uuid s" and "hasThing c old s = Some t" and "pg_uuid ident = Some t" and "new \<noteq> old" "length new \<le> 4096"
    and "UpdateKey pg_uuid auth token ident new s = (None, s')"
  shows "CanAccessByKey pg_uuid c old s' = (Inr t, s') \<and>
    things_RetrieveByKey old s' = None \<and> things_RetrieveByKey new s' = Some t"
proof (intro conjI)
  obtain owner tbl where up: "things_UpdateKey pg_uuid owner ident new (things_tbl s) = Inr tbl"
    and s': "s' = s\<lparr>things_tbl := tbl\<rparr>"
    using assms(6) by (auto simp: UpdateKey_def split: option.splits sum.splits)
  show "CanAccessByKey pg_uuid c old s' = (Inr t, s')"
    using assms(2)
    by (auto simp: CanAccessByKey_def hasThing_def cache_defs s' split: option.splits if_splits)
  note T = things_invD(1) [OF assms(1)]
  let ?hit = "\<lambda>r. t_owner r = owner \<and> t_id r = t"
  obtain h where h: "h \<in> set (things_tbl s)" "?hit h"
    and tbl: "tbl = map (\<lambda>r. if ?hit r then r\<lparr>t_key := new\<rparr> else r) (things_tbl s)"
    and uniq: "\<forall>r\<in>set (things_tbl s). \<not> ?hit r \<longrightarrow> t_key r \<noteq> new"
    using up assms(3,5) by (auto simp: things_UpdateKey_def varchar_def Let_def list_ex_iff split: if_splits)
  obtain x where x: "x \<in> set (things_tbl s)" "t_key x = old" "t_id x = t"
    using hasThing_connected [OF assms(1,2)] by (auto simp: channels_HasThing_Some RetrieveByKey_row [OF T])
  have "?hit r" if "r \<in> set (things_tbl s)" "t_key r = old" for r
    using thing_row_unique [OF T that(1) x(1)] thing_row_unique(1) [OF T h(1) x(1)] that h(2) x by simp
  then show "things_RetrieveByKey old s' = None"
    using assms(4) by (auto simp: things_RetrieveByKey_def s' tbl find_None_iff)
  have ex: "\<exists>r\<in>set tbl. t_key r = new"
    using h unfolding tbl by (intro bexI [of _ "h\<lparr>t_key := new\<rparr>"]) force+
  have all: "t_id r = t" if "r \<in> set tbl" "t_key r = new" for r
  proof -
    from that(1) obtain x where "x \<in> set (things_tbl s)" "r = (if ?hit x then x\<lparr>t_key := new\<rparr> else x)"
      unfolding tbl set_map by blast
    with that(2) uniq show ?thesis
      by (cases "?hit x") simp_all
  qed
  show "things_RetrieveByKey new s' = Some t"
    using ex all by (cases "find (\<lambda>r. t_key r = new) tbl")
      (auto simp: things_RetrieveByKey_def s' find_None_iff find_Some_iff)
qed

theorem UpdateKey_old_key_accepted_witness:
  "fst (UpdateKey Some Some ''joe'' ''t1'' ''k2'' sample_cached) = None \<and>
   fst (CanAccessByKey Some ''c1'' ''k1'' (snd (UpdateKey Some Some ''joe'' ''t1'' ''k2'' sample_cached))) = Inr ''t1'' \<and>
   things_RetrieveByKey ''k1'' (snd (UpdateKey Some Some ''joe'' ''t1'' ''k2'' sample_cached)) = None"
proof -
  have ok: "fst (UpdateKey Some Some ''joe'' ''t1'' ''k2'' sample_cached) = None"
    by (simp add: UpdateKey_def things_UpdateKey_def varchar_def Let_def sample_cached_eq sample_things_def)
  have "hasThing ''c1'' ''k1'' sample_cached = Some ''t1''"
    by (simp add: hasThing_def cache_defs sample_cached_eq tkey_def cid_def)
  from UpdateKey_old_key_accepted [OF sample_cached_inv this, of "''t1''" "''k2''" Some "''joe''"
      "snd (UpdateKey Some Some ''joe'' ''t1'' ''k2'' sample_cached)"] ok
  show ?thesis
    by (simp add: prod_eq_iff)
qed

text \<open>
  C36. Removing a thing revokes its key, but not its identifier: \<open>RemoveThing\<close> clears the key from the cache and the
  rows from the tables, so no key gives the thing any more, but it leaves the cached connections, so \<open>CanAccessByID\<close>
  still accepts the removed thing on every channel that was cached for it.
\<close>

theorem RemoveThing_leaves_connections:
  assumes "things_inv pg_uuid s" and "pg_uuid t = Some t" and "RemoveThing pg_uuid auth token t s = (None, s')"
    and "r \<in> set (things_tbl s)" "t_id r = t" "auth token = Some (t_owner r)" and "t \<in> redis_set s (cid c)"
  shows "fst (CanAccessByKey pg_uuid c' k s') \<noteq> Inr t \<and>
    CanAccessByID pg_uuid c t s' = (None, s') \<and> \<not> channels_HasThingByID pg_uuid c t s'"
proof (intro conjI)
  note T = things_invD(1) [OF assms(1)]
  have s': "s' = things_Remove pg_uuid (t_owner r) t (thingCache_Remove t s)"
    using assms(3,6) by (simp add: RemoveThing_def)
  have tbls: "things_tbl s' = filter (\<lambda>x. \<not> (t_id x = t \<and> t_owner x = t_owner r)) (things_tbl s)"
    "conns_tbl s' = filter (\<lambda>x. \<not> (co_thing x = t \<and> co_owner x = t_owner r)) (conns_tbl s)"
    "redis_set s' = redis_set s"
    using assms(2) by (auto simp: s' things_Remove_def thingCache_Remove_def split: option.splits)
  have gone: "t_id x \<noteq> t" if "x \<in> set (things_tbl s')" for x
    using that thing_row_unique(1) [OF T _ assms(4)] assms(5) by (auto simp: tbls)
  have inv': "things_inv pg_uuid s'"
    using RemoveThing_inv [OF assms(1,3)] assms(2) by simp
  show "fst (CanAccessByKey pg_uuid c' k s') \<noteq> Inr t"
    using gone things_invD(1) [OF inv'] by (auto simp: CanAccessByKey_Inr [OF inv'] RetrieveByKey_row)
  show "CanAccessByID pg_uuid c t s' = (None, s')"
    using assms(7) by (simp add: CanAccessByID_def cache_defs tbls)
  show "\<not> channels_HasThingByID pg_uuid c t s'"
  proof
    assume "channels_HasThingByID pg_uuid c t s'"
    then obtain x where "x \<in> set (conns_tbl s')" "t = co_thing x"
      using assms(2) by (auto simp: HasThingByID_row)
    with tables_okD(4) [OF things_invD(1) [OF inv']] gone show False
      by metis
  qed
qed

theorem RemoveThing_leaves_connections_witness:
  "(let s' = snd (RemoveThing Some Some ''joe'' ''t1'' sample_cached) in
    fst (CanAccessByKey Some ''c1'' ''k1'' s') \<noteq> Inr ''t1'' \<and> fst (CanAccessByID Some ''c1'' ''t1'' s') = None \<and>
    things_tbl s' = [])"
proof -
  let ?s' = "snd (RemoveThing Some Some ''joe'' ''t1'' sample_cached)"
  have "RemoveThing Some Some ''joe'' ''t1'' sample_cached = (None, ?s')"
    by (simp add: RemoveThing_def)
  from RemoveThing_leaves_connections [OF sample_cached_inv refl this,
      of "\<lparr> t_id = ''t1'', t_owner = ''joe'', t_key = ''k1'', t_name = ''pump'', t_metadata = [] \<rparr>" "''c1''" "''c1''" "''k1''"]
  have "fst (CanAccessByKey Some ''c1'' ''k1'' ?s') \<noteq> Inr ''t1'' \<and> fst (CanAccessByID Some ''c1'' ''t1'' ?s') = None"
    by (simp add: sample_cached_eq sample_things_def cid_def)
  moreover have "things_tbl ?s' = []"
    by (simp add: RemoveThing_def things_Remove_def thingCache_Remove_def sample_cached_eq sample_things_def tid_def)
  ultimately show ?thesis
    by simp
qed

end
