(* ===== verification/Things_Views.thy ===== *)
theory Things_Views
  imports Things_Cache "HOL-Library.Word" "HOL-Library.Multiset" "HOL-Library.Char_ord" "HOL-Library.List_Lexorder"
begin

text \<open>
  The reading operations of the things service: \<open>RetrieveByID\<close>, \<open>RetrieveAll\<close>, \<open>RetrieveByChannel\<close> and
  \<open>RetrieveByThing\<close> of \<open>things/postgres\<close>, and the views and listings of \<open>things/service.go\<close> on top of
  them. A listing is a page of the matching rows in the order of their identifiers, with the number of
  all matching rows.

  The texts of identifiers in the tables are the canonical ones of PostgreSQL, whose order as texts is the
  order of the type \<open>UUID\<close>. Parameters: \<open>contains\<close> is the operator \<open>@>\<close> of \<open>JSONB\<close>, \<open>go_uuid\<close> says which texts
  the Go package \<open>gofrs/uuid\<close> accepts. Letters are those of ASCII.
\<close>

section \<open>The code\<close>

subsection \<open>Filters\<close>

definition lower_char :: "char \<Rightarrow> char" where
  "lower_char c = (let n = of_char c :: nat in if 65 \<le> n \<and> n \<le> 90 then char_of (n + 32) else c)"

definition ToLower :: "string \<Rightarrow> string" where
  "ToLower s = map lower_char s"

text \<open>\<open>s LIKE p\<close>: a percent sign stands for any text, an underscore for any character, a backslash quotes
  the character after it. (A backslash at the end of a pattern is an error; the patterns of the service end in a
  percent sign.)\<close>

fun like :: "string \<Rightarrow> string \<Rightarrow> bool" where
  "like [] s = (s = [])"
| "like (p # ps) s =
     (if p = CHR ''%'' then like ps s \<or> (case s of [] \<Rightarrow> False | _ # cs \<Rightarrow> like (p # ps) cs)
      else if p = CHR 0x5C
      then (case ps of [] \<Rightarrow> False | q # qs \<Rightarrow> (case s of [] \<Rightarrow> False | c # cs \<Rightarrow> c = q \<and> like qs cs))
      else (case s of [] \<Rightarrow> False | c # cs \<Rightarrow> (p = CHR ''_'' \<or> c = p) \<and> like ps cs))"

text \<open>The conditions that \<open>getNameQuery\<close> and \<open>getMetadataQuery\<close> add to a query, \<open>None\<close> for no condition.\<close>

definition getNameQuery :: "string \<Rightarrow> string option" where
  "getNameQuery name =
     (let name = ToLower name in if name \<noteq> [] then Some (''%'' @ name @ ''%'') else None)"

definition getMetadataQuery :: "metadata option \<Rightarrow> metadata option" where
  "getMetadataQuery m = (case m of None \<Rightarrow> None | Some m \<Rightarrow> if m = [] then None else Some m)"

definition name_cond :: "string option \<Rightarrow> string \<Rightarrow> bool" where
  "name_cond nq name = (case nq of None \<Rightarrow> True | Some pat \<Rightarrow> like pat (ToLower name))"

definition metadata_cond :: "(metadata \<Rightarrow> metadata \<Rightarrow> bool) \<Rightarrow> metadata option \<Rightarrow> metadata option \<Rightarrow> bool" where
  "metadata_cond contains mq column =
     (case mq of None \<Rightarrow> True | Some m \<Rightarrow> (case column of None \<Rightarrow> False | Some c \<Rightarrow> contains c m))"

subsection \<open>Pages\<close>

record 'a page =
  page_items :: "'a list"
  page_total :: "64 word"
  page_offset :: "64 word"
  page_limit :: "64 word"

text \<open>A listing runs two queries, one for the rows of the page and one for their number. The first: what \<open>LIMIT\<close> and
  \<open>OFFSET\<close> leave of the ordered rows. A number with its highest bit set cannot be passed to the database.\<close>

definition select_page :: "'r list \<Rightarrow> 64 word \<Rightarrow> 64 word \<Rightarrow> svc_error + 'r list" where
  "select_page rows offset limit =
     (if 2 ^ 63 \<le> unat offset \<or> 2 ^ 63 \<le> unat limit then Inl OtherError
      else Inr (take (unat limit) (drop (unat offset) rows)))"

text \<open>The second query, and the page that is made of the two.\<close>

definition count_rows :: "'r list \<Rightarrow> 64 word" where
  "count_rows rows = of_nat (length rows)"

definition page_of :: "('r \<Rightarrow> 'a) \<Rightarrow> svc_error + 'r list \<Rightarrow> 64 word \<Rightarrow> 64 word \<Rightarrow> 64 word \<Rightarrow> svc_error + 'a page" where
  "page_of item rows n offset limit =
     (case rows of
        Inl e \<Rightarrow> Inl e
      | Inr rows \<Rightarrow> Inr \<lparr> page_items = map item rows, page_total = n, page_offset = offset, page_limit = limit \<rparr>)"

subsection \<open>Things\<close>

definition toThing :: "thing_row \<Rightarrow> thing" where
  "toThing r = \<lparr> thing_ID = t_id r, thing_Owner = t_owner r, thing_Name = t_name r, thing_Key = t_key r,
     thing_Metadata = Some (t_metadata r) \<rparr>"

definition things_RetrieveByID ::
  "(string \<Rightarrow> string option) \<Rightarrow> string \<Rightarrow> string \<Rightarrow> things_state \<Rightarrow> svc_error + thing" where
  "things_RetrieveByID pg_uuid owner ident s =
     (case pg_uuid ident of
        None \<Rightarrow> Inl ErrNotFound
      | Some i \<Rightarrow>
          (case find (\<lambda>r. t_id r = i \<and> t_owner r = owner) (things_tbl s) of
             None \<Rightarrow> Inl ErrNotFound
           | Some r \<Rightarrow> Inr (toThing (r\<lparr>t_id := ident, t_owner := owner\<rparr>))))"

definition things_where ::
  "(metadata \<Rightarrow> metadata \<Rightarrow> bool) \<Rightarrow> string \<Rightarrow> string \<Rightarrow> metadata option \<Rightarrow> thing_row \<Rightarrow> bool" where
  "things_where contains owner name m r \<longleftrightarrow>
     t_owner r = owner \<and> metadata_cond contains (getMetadataQuery m) (Some (t_metadata r)) \<and>
     name_cond (getNameQuery name) (t_name r)"

definition things_RetrieveAll ::
  "(metadata \<Rightarrow> metadata \<Rightarrow> bool) \<Rightarrow> string \<Rightarrow> 64 word \<Rightarrow> 64 word \<Rightarrow> string \<Rightarrow> metadata option \<Rightarrow> things_state \<Rightarrow>
   svc_error + thing page" where
  "things_RetrieveAll contains owner offset limit name m s =
     page_of (\<lambda>r. toThing (r\<lparr>t_owner := owner\<rparr>))
       (select_page (sort_key t_id (filter (things_where contains owner name m) (things_tbl s))) offset limit)
       (count_rows (filter (things_where contains owner name m) (things_tbl s))) offset limit"

definition things_RetrieveByChannel ::
  "(string \<Rightarrow> bool) \<Rightarrow> (string \<Rightarrow> string option) \<Rightarrow> string \<Rightarrow> string \<Rightarrow> 64 word \<Rightarrow> 64 word \<Rightarrow> things_state \<Rightarrow>
   svc_error + thing page" where
  "things_RetrieveByChannel go_uuid pg_uuid owner chan offset limit s =
     (if \<not> go_uuid chan then Inl ErrNotFound
      else
        (case pg_uuid chan of
           None \<Rightarrow> Inl OtherError
         | Some c \<Rightarrow>
             page_of (\<lambda>r. toThing (r\<lparr>t_owner := owner\<rparr>))
               (select_page (sort_key t_id [th. th \<leftarrow> things_tbl s, co \<leftarrow> conns_tbl s,
                  t_id th = co_thing co \<and> t_owner th = owner \<and> co_channel co = c]) offset limit)
               (count_rows [th. th \<leftarrow> things_tbl s, co \<leftarrow> conns_tbl s,
                  t_id th = co_thing co \<and> t_owner th = owner \<and> co_channel co = c]) offset limit))"

definition ViewThing ::
  "(string \<Rightarrow> string option) \<Rightarrow> (string \<Rightarrow> string option) \<Rightarrow> string \<Rightarrow> string \<Rightarrow> things_state \<Rightarrow> svc_error + thing" where
  "ViewThing pg_uuid auth token ident s =
     (case auth token of
        None \<Rightarrow> Inl ErrUnauthorizedAccess
      | Some owner \<Rightarrow> things_RetrieveByID pg_uuid owner ident s)"

definition ListThings ::
  "(metadata \<Rightarrow> metadata \<Rightarrow> bool) \<Rightarrow> (string \<Rightarrow> string option) \<Rightarrow> string \<Rightarrow> 64 word \<Rightarrow> 64 word \<Rightarrow> string \<Rightarrow>
   metadata option \<Rightarrow> things_state \<Rightarrow> svc_error + thing page" where
  "ListThings contains auth token offset limit name m s =
     (case auth token of
        None \<Rightarrow> Inl ErrUnauthorizedAccess
      | Some owner \<Rightarrow> things_RetrieveAll contains owner offset limit name m s)"

definition ListThingsByChannel ::
  "(string \<Rightarrow> bool) \<Rightarrow> (string \<Rightarrow> string option) \<Rightarrow> (string \<Rightarrow> string option) \<Rightarrow> string \<Rightarrow> string \<Rightarrow> 64 word \<Rightarrow> 64 word \<Rightarrow>
   things_state \<Rightarrow> svc_error + thing page" where
  "ListThingsByChannel go_uuid pg_uuid auth token chan offset limit s =
     (case auth token of
        None \<Rightarrow> Inl ErrUnauthorizedAccess
      | Some owner \<Rightarrow> things_RetrieveByChannel go_uuid pg_uuid owner chan offset limit s)"

subsection \<open>Channels\<close>

definition toChannel :: "channel_row \<Rightarrow> channel" where
  "toChannel r = \<lparr> channel_ID = c_id r, channel_Owner = c_owner r, channel_Name = c_name r,
     channel_Metadata = c_metadata r \<rparr>"

definition channels_RetrieveByID ::
  "(string \<Rightarrow> string option) \<Rightarrow> string \<Rightarrow> string \<Rightarrow> things_state \<Rightarrow> svc_error + channel" where
  "channels_RetrieveByID pg_uuid owner ident s =
     (case pg_uuid ident of
        None \<Rightarrow> Inl ErrNotFound
      | Some i \<Rightarrow>
          (case find (\<lambda>r. c_id r = i \<and> c_owner r = owner) (channels_tbl s) of
             None \<Rightarrow> Inl ErrNotFound
           | Some r \<Rightarrow> Inr (toChannel (r\<lparr>c_id := ident, c_owner := owner\<rparr>))))"

definition channels_where ::
  "(metadata \<Rightarrow> metadata \<Rightarrow> bool) \<Rightarrow> string \<Rightarrow> string \<Rightarrow> metadata option \<Rightarrow> channel_row \<Rightarrow> bool" where
  "channels_where contains owner name m r \<longleftrightarrow>
     c_owner r = owner \<and> metadata_cond contains (getMetadataQuery m) (c_metadata r) \<and>
     name_cond (getNameQuery name) (c_name r)"

definition channels_RetrieveAll ::
  "(metadata \<Rightarrow> metadata \<Rightarrow> bool) \<Rightarrow> string \<Rightarrow> 64 word \<Rightarrow> 64 word \<Rightarrow> string \<Rightarrow> metadata option \<Rightarrow> things_state \<Rightarrow>
   svc_error + channel page" where
  "channels_RetrieveAll contains owner offset limit name m s =
     page_of (\<lambda>r. toChannel (r\<lparr>c_owner := owner\<rparr>))
       (select_page (sort_key c_id (filter (channels_where contains owner name m) (channels_tbl s))) offset limit)
       (count_rows (filter (channels_where contains owner name m) (channels_tbl s))) offset limit"

definition channels_RetrieveByThing ::
  "(string \<Rightarrow> bool) \<Rightarrow> (string \<Rightarrow> string option) \<Rightarrow> string \<Rightarrow> string \<Rightarrow> 64 word \<Rightarrow> 64 word \<Rightarrow> things_state \<Rightarrow>
   svc_error + channel page" where
  "channels_RetrieveByThing go_uuid pg_uuid owner th offset limit s =
     (if \<not> go_uuid th then Inl ErrNotFound
      else
        (case pg_uuid th of
           None \<Rightarrow> Inl OtherError
         | Some t \<Rightarrow>
             page_of (\<lambda>r. toChannel (r\<lparr>c_owner := owner\<rparr>))
               (select_page (sort_key c_id [ch. ch \<leftarrow> channels_tbl s, co \<leftarrow> conns_tbl s,
                  c_id ch = co_channel co \<and> c_owner ch = owner \<and> co_thing co = t]) offset limit)
               (count_rows [ch. ch \<leftarrow> channels_tbl s, co \<leftarrow> conns_tbl s,
                  c_id ch = co_channel co \<and> c_owner ch = owner \<and> co_thing co = t]) offset limit))"

definition ViewChannel ::
  "(string \<Rightarrow> string option) \<Rightarrow> (string \<Rightarrow> string option) \<Rightarrow> string \<Rightarrow> string \<Rightarrow> things_state \<Rightarrow> svc_error + channel" where
  "ViewChannel pg_uuid auth token ident s =
     (case auth token of
        None \<Rightarrow> Inl ErrUnauthorizedAccess
      | Some owner \<Rightarrow> channels_RetrieveByID pg_uuid owner ident s)"

definition ListChannels ::
  "(metadata \<Rightarrow> metadata \<Rightarrow> bool) \<Rightarrow> (string \<Rightarrow> string option) \<Rightarrow> string \<Rightarrow> 64 word \<Rightarrow> 64 word \<Rightarrow> string \<Rightarrow>
   metadata option \<Rightarrow> things_state \<Rightarrow> svc_error + channel page" where
  "ListChannels contains auth token offset limit name m s =
     (case auth token of
        None \<Rightarrow> Inl ErrUnauthorizedAccess
      | Some owner \<Rightarrow> channels_RetrieveAll contains owner offset limit name m s)"

definition ListChannelsByThing ::
  "(string \<Rightarrow> bool) \<Rightarrow> (string \<Rightarrow> string option) \<Rightarrow> (string \<Rightarrow> string option) \<Rightarrow> string \<Rightarrow> string \<Rightarrow> 64 word \<Rightarrow> 64 word \<Rightarrow>
   things_state \<Rightarrow> svc_error + channel page" where
  "ListChannelsByThing go_uuid pg_uuid auth token th offset limit s =
     (case auth token of
        None \<Rightarrow> Inl ErrUnauthorizedAccess
      | Some owner \<Rightarrow> channels_RetrieveByThing go_uuid pg_uuid owner th offset limit s)"

section \<open>Name filters\<close>

text \<open>The characters with a meaning in a pattern.\<close>

definition plain_char :: "char \<Rightarrow> bool" where
  "plain_char c \<longleftrightarrow> c \<notin> {CHR ''%'', CHR ''_'', CHR 0x5C}"

definition plain_pattern :: "string \<Rightarrow> bool" where
  "plain_pattern p = list_all plain_char p"

declare like.simps(2) [simp del]

lemma like_percent_simps:
  "like (CHR ''%'' # ps) [] \<longleftrightarrow> like ps []"
  "like (CHR ''%'' # ps) (c # s) \<longleftrightarrow> like ps (c # s) \<or> like (CHR ''%'' # ps) s"
  by (subst like.simps(2), simp)+

lemma like_percent: "like (CHR ''%'' # ps) s \<longleftrightarrow> (\<exists>u v. s = u @ v \<and> like ps v)"
proof (induction s)
  case (Cons c s)
  have "(\<exists>u v. c # s = u @ v \<and> like ps v) \<longleftrightarrow> like ps (c # s) \<or> (\<exists>u v. s = u @ v \<and> like ps v)"
    by (auto simp: Cons_eq_append_conv)
  then show ?case
    using Cons by (simp add: like_percent_simps(2))
qed (simp add: like_percent_simps(1))

lemma like_char:
  "plain_char p \<Longrightarrow> like (p # ps) s \<longleftrightarrow> (\<exists>v. s = p # v \<and> like ps v)"
  by (subst like.simps(2)) (auto simp: plain_char_def split: list.splits)

lemma like_plain: "plain_pattern p \<Longrightarrow> like (p @ q) s \<longleftrightarrow> (\<exists>v. s = p @ v \<and> like q v)"
proof (induction p arbitrary: s)
  case (Cons c p)
  then have c: "plain_char c" "plain_pattern p"
    by (simp_all add: plain_pattern_def)
  show ?case
    using Cons.IH [OF c(2)] like_char [OF c(1), of "p @ q" s] by auto
qed simp

lemma like_partial:
  assumes "plain_pattern p"
  shows "like (''%'' @ p @ ''%'') s \<longleftrightarrow> sublist p s"
proof -
  have "like (''%'' @ p @ ''%'') s \<longleftrightarrow> (\<exists>u v. s = u @ p @ v)"
    using like_plain [OF assms, of "''%''"] by (simp add: like_percent) blast
  then show ?thesis
    by (simp add: sublist_def)
qed

lemma lower_char_plain:
  assumes "plain_char c"
  shows "plain_char (lower_char c)"
proof (cases "lower_char c = c")
  case False
  then have "of_char (lower_char c) = of_char c + (32 :: nat)" "of_char c \<ge> (65 :: nat)"
    by (auto simp: lower_char_def Let_def split: if_splits)
  then have "of_char (lower_char c) \<notin> {37, 95, 92 :: nat}"
    by auto
  then show ?thesis
    by (auto simp: plain_char_def)
qed (use assms in simp)

lemma plain_ToLower: "plain_pattern p \<Longrightarrow> plain_pattern (ToLower p)"
  by (simp add: plain_pattern_def ToLower_def list_all_iff lower_char_plain)

lemma name_filter_partial:
  assumes "plain_pattern name"
  shows "name_cond (getNameQuery name) stored \<longleftrightarrow> sublist (ToLower name) (ToLower stored)"
  using like_partial [OF plain_ToLower [OF assms], of "ToLower stored"]
  by (auto simp: name_cond_def getNameQuery_def Let_def)

lemma name_filter_wildcard: "name_cond (getNameQuery ''_'') stored \<longleftrightarrow> stored \<noteq> []"
proof -
  have any: "like ''%'' s" for s
    by (simp add: like_percent)
  have "like ''_%'' s \<longleftrightarrow> s \<noteq> []" for s
    using any by (cases s) (simp_all add: like.simps(2) [of "CHR ''_''"])
  then have "like ''%_%'' s \<longleftrightarrow> s \<noteq> []" for s
    by (auto simp: like_percent intro: exI [of _ "[]"])
  then show ?thesis
    by (simp add: name_cond_def getNameQuery_def ToLower_def lower_char_def)
qed

text \<open>
  The name filter of a listing is the documented one, a partial match that ignores case, for every text
  without the characters that \<open>LIKE\<close> gives a meaning.
\<close>

theorem name_filter_partial_match:
  assumes "plain_pattern name"
  shows "things_where contains owner name None r \<longleftrightarrow> t_owner r = owner \<and> sublist (ToLower name) (ToLower (t_name r))"
  using name_filter_partial [OF assms] by (simp add: things_where_def metadata_cond_def getMetadataQuery_def)

theorem name_filter_partial_match_witness:
  "things_where (\<lambda>_ _. False) ''joe'' ''UMP'' None
     \<lparr> t_id = ''t1'', t_owner = ''joe'', t_key = ''k1'', t_name = ''pump 3'', t_metadata = [] \<rparr>"
proof -
  have "plain_pattern ''UMP''"
    by (simp add: plain_pattern_def plain_char_def)
  moreover have "sublist (ToLower ''UMP'') (ToLower ''pump 3'')"
    by code_simp
  ultimately show ?thesis
    using name_filter_partial_match [of "''UMP''" "\<lambda>_ _. False" "''joe''"] by simp
qed

section \<open>Pages\<close>

lemma concat_pages: "concat (map (\<lambda>k. take l (drop (k * l) xs)) [0..<n]) = take (n * l) xs"
proof (induction n)
  case (Suc n)
  have "take (Suc n * l) xs = take (n * l + l) xs"
    by (simp add: add.commute)
  also have "\<dots> = take (n * l) xs @ take l (drop (n * l) xs)"
    by (rule take_add)
  finally show ?case
    using Suc by simp
qed simp

lemma unat_small: "n < 2 ^ 63 \<Longrightarrow> unat (of_nat n :: 64 word) = n"
  by (simp add: unat_of_nat take_bit_nat_eq_self)

lemma page_of_small:
  assumes "off < 2 ^ 63" "lim < 2 ^ 63"
  shows "page_of item (select_page rows (of_nat off) (of_nat lim)) n (of_nat off) (of_nat lim) =
    Inr \<lparr> page_items = map item (take lim (drop off rows)), page_total = n,
      page_offset = of_nat off, page_limit = of_nat lim \<rparr>"
  using assms by (simp add: page_of_def select_page_def unat_small)

text \<open>The items of \<open>n\<close> pages of \<open>lim\<close> items, one after the other.\<close>

definition things_pages ::
  "(metadata \<Rightarrow> metadata \<Rightarrow> bool) \<Rightarrow> (string \<Rightarrow> string option) \<Rightarrow> string \<Rightarrow> nat \<Rightarrow> nat \<Rightarrow> string \<Rightarrow> metadata option \<Rightarrow>
   things_state \<Rightarrow> thing list" where
  "things_pages contains auth token lim n name m s =
     concat (map (\<lambda>k. case ListThings contains auth token (of_nat (k * lim)) (of_nat lim) name m s of
       Inl _ \<Rightarrow> [] | Inr p \<Rightarrow> page_items p) [0..<n])"

text \<open>
  C20. Paging is complete: the pages of \<open>ListThings\<close>, one after the other, are exactly the things of the user that
  match the filters, each once and in the order of their identifiers, and every page says how many there are.
\<close>

theorem ListThings_pages:
  assumes "auth token = Some owner" and "n * lim < 2 ^ 63" and "length (things_tbl s) \<le> n * lim"
  shows "\<exists>rows. mset rows = mset (filter (things_where contains owner name m) (things_tbl s)) \<and> sorted (map t_id rows) \<and>
    things_pages contains auth token lim n name m s = map toThing rows \<and>
    (\<forall>k<n. \<exists>p. ListThings contains auth token (of_nat (k * lim)) (of_nat lim) name m s = Inr p \<and>
      unat (page_total p) = length rows \<and> length (page_items p) \<le> lim)"
proof -
  let ?sel = "things_where contains owner name m"
  let ?rows = "sort_key t_id (filter ?sel (things_tbl s))"
  let ?item = "\<lambda>r. toThing (r\<lparr>t_owner := owner\<rparr>)"
  have len: "length ?rows \<le> n * lim"
    using le_trans [OF length_filter_le assms(3)] by simp
  have page: "ListThings contains auth token (of_nat (k * lim)) (of_nat lim) name m s =
      Inr \<lparr> page_items = map ?item (take lim (drop (k * lim) ?rows)), page_total = count_rows (filter ?sel (things_tbl s)),
        page_offset = of_nat (k * lim), page_limit = of_nat lim \<rparr>" if "k < n" for k
  proof -
    have "k * lim \<le> n * lim" "1 * lim \<le> n * lim"
      using that by (auto intro: mult_le_mono1)
    then have "k * lim < 2 ^ 63" "lim < 2 ^ 63"
      using assms(2) by linarith+
    then show ?thesis
      unfolding ListThings_def things_RetrieveAll_def assms(1) option.case by (rule page_of_small)
  qed
  have "things_pages contains auth token lim n name m s = concat (map (\<lambda>k. map ?item (take lim (drop (k * lim) ?rows))) [0..<n])"
    unfolding things_pages_def by (rule arg_cong [of _ _ concat]) (simp add: page del: of_nat_mult)
  also have "\<dots> = map ?item (concat (map (\<lambda>k. take lim (drop (k * lim) ?rows)) [0..<n]))"
    by (simp add: map_concat comp_def)
  also have "\<dots> = map ?item ?rows"
    using len by (simp add: concat_pages)
  also have "\<dots> = map toThing ?rows"
    by (rule map_cong) (auto simp: things_where_def)
  finally have "things_pages contains auth token lim n name m s = map toThing ?rows" .
  moreover have "unat (count_rows (filter ?sel (things_tbl s))) = length ?rows"
    using len assms(2) unat_small [of "length ?rows"] by (simp add: count_rows_def)
  ultimately show ?thesis
    using page by (intro exI [of _ ?rows]) (simp del: of_nat_mult)
qed

theorem ListThings_pages_witness:
  "things_pages (\<lambda>_ _. True) Some ''joe'' 1 2 [] None sample_things = map toThing (things_tbl sample_things)"
proof -
  have "2 * 1 < (2 :: nat) ^ 63" "length (things_tbl sample_things) \<le> 2 * 1"
    by (simp_all add: sample_things_def)
  from ListThings_pages [OF _ this, where auth = Some and token = "''joe''" and owner = "''joe''" and name = "[]" and m = None and
      contains = "\<lambda>_ _. True"]
  obtain rows where "mset rows = mset (filter (things_where (\<lambda>_ _. True) ''joe'' [] None) (things_tbl sample_things))"
    "things_pages (\<lambda>_ _. True) Some ''joe'' 1 2 [] None sample_things = map toThing rows"
    by auto
  moreover have "filter (things_where (\<lambda>_ _. True) ''joe'' [] None) (things_tbl sample_things) = things_tbl sample_things"
    "things_tbl sample_things = [hd (things_tbl sample_things)]"
    by (simp_all add: sample_things_def things_where_def metadata_cond_def getMetadataQuery_def name_cond_def getNameQuery_def ToLower_def)
  ultimately show ?thesis
    by (metis mset_single_iff mset_single_iff_right)
qed

section \<open>Views\<close>

lemma find_map_update: "(\<And>x. P (f x) = P x) \<Longrightarrow> find P (map f xs) = map_option f (find P xs)"
  by (induction xs) auto

text \<open>
  C22. What was written is read back: after an update a user sees the thing with the new name and metadata and
  with the same key, and every other thing, and every thing of another user, as before.
\<close>

theorem UpdateThing_ViewThing:
  assumes "auth token = Some owner" and "UpdateThing pg_uuid auth token th s = (None, s')" and "length (thing_Name th) \<le> 1024"
  shows "\<exists>old. ViewThing pg_uuid auth token (thing_ID th) s = Inr old \<and>
    ViewThing pg_uuid auth token (thing_ID th) s' =
      Inr (old\<lparr>thing_Name := thing_Name th, thing_Metadata := Some (case thing_Metadata th of None \<Rightarrow> [] | Some m \<Rightarrow> m)\<rparr>) \<and>
    (\<forall>token' i. auth token' \<noteq> Some owner \<or> pg_uuid i \<noteq> pg_uuid (thing_ID th) \<longrightarrow>
      ViewThing pg_uuid auth token' i s' = ViewThing pg_uuid auth token' i s)"
proof -
  define m where "m = (case thing_Metadata th of None \<Rightarrow> [] | Some m \<Rightarrow> m)"
  obtain i where i: "pg_uuid (thing_ID th) = Some i"
    using assms(1,2) by (auto simp: UpdateThing_def things_Update_def toDBThing_def Let_def split: option.splits sum.splits)
  define hit where "hit = (\<lambda>r :: thing_row. t_owner r = owner \<and> t_id r = i)"
  define f where "f = (\<lambda>r :: thing_row. if hit r then r\<lparr>t_name := thing_Name th, t_metadata := m\<rparr> else r)"
  have ex: "\<exists>r\<in>set (things_tbl s). hit r" and s': "s' = s\<lparr>things_tbl := map f (things_tbl s)\<rparr>"
    using assms i unfolding f_def hit_def m_def
    by (auto simp: UpdateThing_def things_Update_def toDBThing_def varchar_def Let_def list_ex_iff split: sum.splits if_splits)
  have found: "find (\<lambda>r. t_id r = j \<and> t_owner r = ow) (map f (things_tbl s)) =
      map_option f (find (\<lambda>r. t_id r = j \<and> t_owner r = ow) (things_tbl s))" for j ow
    by (rule find_map_update) (simp add: f_def)
  have other: "map_option f (find (\<lambda>r. t_id r = j \<and> t_owner r = ow) xs) = find (\<lambda>r. t_id r = j \<and> t_owner r = ow) xs"
    if "ow \<noteq> owner \<or> j \<noteq> i" for j ow xs
    using that by (induction xs) (auto simp: f_def hit_def)
  obtain r where r: "find (\<lambda>r. t_id r = i \<and> t_owner r = owner) (things_tbl s) = Some r" "hit r"
    using ex by (cases "find (\<lambda>r. t_id r = i \<and> t_owner r = owner) (things_tbl s)")
      (auto simp: find_None_iff find_Some_iff hit_def)
  have "ViewThing pg_uuid auth token' j s' = ViewThing pg_uuid auth token' j s"
    if "auth token' \<noteq> Some owner \<or> pg_uuid j \<noteq> pg_uuid (thing_ID th)" for token' j
  proof (cases "auth token'"; cases "pg_uuid j")
    fix ow j'
    assume "auth token' = Some ow" "pg_uuid j = Some j'"
    with that i show ?thesis
      by (simp add: ViewThing_def things_RetrieveByID_def s' found other)
  qed (simp_all add: ViewThing_def things_RetrieveByID_def)
  moreover have "f r = r\<lparr>t_name := thing_Name th, t_metadata := m\<rparr>"
    using r(2) by (simp add: f_def)
  ultimately show ?thesis
    using assms(1) i r(1) by (simp add: ViewThing_def things_RetrieveByID_def s' found toThing_def m_def)
qed

theorem UpdateThing_ViewThing_witness:
  "\<exists>old. ViewThing Some Some ''joe'' ''t1'' sample_things = Inr old \<and>
     ViewThing Some Some ''joe'' ''t1'' (snd (UpdateThing Some Some ''joe''
       \<lparr> thing_ID = ''t1'', thing_Owner = [], thing_Name = ''valve'', thing_Key = [], thing_Metadata = None \<rparr> sample_things)) =
     Inr (old\<lparr>thing_Name := ''valve'', thing_Metadata := Some []\<rparr>)"
proof -
  let ?th = "\<lparr> thing_ID = ''t1'', thing_Owner = [], thing_Name = ''valve'', thing_Key = [], thing_Metadata = None \<rparr>"
  have "UpdateThing Some Some ''joe'' ?th sample_things = (None, snd (UpdateThing Some Some ''joe'' ?th sample_things))"
    by (simp add: UpdateThing_def things_Update_def toDBThing_def varchar_def sample_things_def)
  from UpdateThing_ViewThing [OF refl this] show ?thesis
    by auto
qed

section \<open>Who is on a channel\<close>

lemma connected_rows:
  "r \<in> set (sort_key t_id [th. th \<leftarrow> ths, co \<leftarrow> cos, t_id th = co_thing co \<and> t_owner th = owner \<and> co_channel co = i]) \<longleftrightarrow>
   r \<in> set ths \<and> t_owner r = owner \<and> (\<exists>co\<in>set cos. co_thing co = t_id r \<and> co_channel co = i)"
  by auto

lemma first_page_all:
  assumes "page_of item (select_page rows 0 lim) n 0 lim = Inr p" "length (page_items p) < unat lim"
  shows "page_items p = map item rows"
proof -
  have "page_items p = map item (take (unat lim) rows)"
    using assms(1) by (auto simp: page_of_def select_page_def split: if_splits)
  with assms(2) show ?thesis
    by simp
qed

lemma ListThingsByChannel_rows:
  assumes "auth token = Some owner" and "ListThingsByChannel go_uuid pg_uuid auth token c 0 lim s = Inr p"
    and "length (page_items p) < unat lim"
  obtains i where "pg_uuid c = Some i"
    "\<And>th. th \<in> set (page_items p) \<longleftrightarrow> (\<exists>r\<in>set (things_tbl s). t_owner r = owner \<and>
      (\<exists>co\<in>set (conns_tbl s). co_thing co = t_id r \<and> co_channel co = i) \<and> th = toThing r)"
proof -
  let ?rows = "\<lambda>i. sort_key t_id [th. th \<leftarrow> things_tbl s, co \<leftarrow> conns_tbl s, t_id th = co_thing co \<and> t_owner th = owner \<and> co_channel co = i]"
  obtain i where i: "pg_uuid c = Some i" "page_of (\<lambda>r. toThing (r\<lparr>t_owner := owner\<rparr>)) (select_page (?rows i) 0 lim) (page_total p) 0 lim = Inr p"
    using assms(1,2) by (fastforce simp: ListThingsByChannel_def things_RetrieveByChannel_def page_of_def split: if_splits option.splits sum.splits)
  then have p: "page_items p = map (\<lambda>r. toThing (r\<lparr>t_owner := owner\<rparr>)) (?rows i)"
    using first_page_all [OF _ assms(3)] by blast
  have "th \<in> set (page_items p) \<longleftrightarrow> (\<exists>r\<in>set (?rows i). th = toThing (r\<lparr>t_owner := owner\<rparr>))" for th
    unfolding p set_map by blast
  then have "th \<in> set (page_items p) \<longleftrightarrow> (\<exists>r\<in>set (things_tbl s). t_owner r = owner \<and>
      (\<exists>co\<in>set (conns_tbl s). co_thing co = t_id r \<and> co_channel co = i) \<and> th = toThing r)" for th
    unfolding Bex_def connected_rows by auto
  with i(1) that show thesis
    by blast
qed

text \<open>
  C21. The list of a channel is the list of those who may use it: while the caches agree with the tables, a
  page of \<open>ListThingsByChannel\<close> that is not full has exactly the user's things that \<open>CanAccessByKey\<close> accepts on the
  channel with their keys.
\<close>

theorem ListThingsByChannel_access:
  assumes "things_inv pg_uuid s" and "auth token = Some owner"
    and "ListThingsByChannel go_uuid pg_uuid auth token c 0 lim s = Inr p" and "length (page_items p) < unat lim"
  shows "(\<exists>th\<in>set (page_items p). thing_ID th = t \<and> thing_Key th = k) \<longleftrightarrow>
    fst (CanAccessByKey pg_uuid c k s) = Inr t \<and> (\<exists>r\<in>set (things_tbl s). t_id r = t \<and> t_owner r = owner)"
proof -
  note T = things_invD(1) [OF assms(1)]
  obtain i where i: "pg_uuid c = Some i" and p: "\<And>th. th \<in> set (page_items p) \<longleftrightarrow> (\<exists>r\<in>set (things_tbl s). t_owner r = owner \<and>
      (\<exists>co\<in>set (conns_tbl s). co_thing co = t_id r \<and> co_channel co = i) \<and> th = toThing r)"
    by (rule ListThingsByChannel_rows [OF assms(2,3,4)], rule that)
  have "(\<exists>th\<in>set (page_items p). thing_ID th = t \<and> thing_Key th = k) \<longleftrightarrow>
      (\<exists>r\<in>set (things_tbl s). \<exists>co\<in>set (conns_tbl s). t_id r = t \<and> t_key r = k \<and> co_thing co = t \<and> t_owner r = owner \<and> co_channel co = i)"
  proof -
    have "thing_ID (toThing r) = t_id r" "thing_Key (toThing r) = t_key r" for r
      by (simp_all add: toThing_def)
    then show ?thesis
      unfolding Bex_def p by (metis (no_types, lifting))
  qed
  also have "\<dots> \<longleftrightarrow> (\<exists>r\<in>set (things_tbl s). t_key r = k \<and> t_id r = t \<and> t_owner r = owner) \<and> channels_HasThingByID pg_uuid c t s"
  proof (cases "\<exists>r\<in>set (things_tbl s). t_id r = t")
    case True
    then have "pg_uuid t = Some t"
      using tables_okD(3) [OF T] by blast
    then show ?thesis
      using i by (auto simp: HasThingByID_row)
  qed auto
  also have "\<dots> \<longleftrightarrow> fst (CanAccessByKey pg_uuid c k s) = Inr t \<and> (\<exists>r\<in>set (things_tbl s). t_id r = t \<and> t_owner r = owner)"
    using thing_row_unique(1) [OF T] unfolding CanAccessByKey_Inr [OF assms(1)] RetrieveByKey_row [OF T] by blast
  finally show ?thesis .
qed

theorem ListThingsByChannel_access_witness:
  "\<exists>p. ListThingsByChannel (\<lambda>_. True) Some Some ''joe'' ''c1'' 0 10 sample_cached = Inr p \<and>
     (\<exists>th\<in>set (page_items p). thing_ID th = ''t1'' \<and> thing_Key th = ''k1'')"
proof -
  obtain p where p: "ListThingsByChannel (\<lambda>_. True) Some Some ''joe'' ''c1'' 0 10 sample_cached = Inr p" "length (page_items p) = 1"
    by (simp add: ListThingsByChannel_def things_RetrieveByChannel_def page_of_def select_page_def sample_cached_eq sample_things_def)
  moreover have "fst (CanAccessByKey Some ''c1'' ''k1'' sample_cached) = Inr ''t1''"
    by (simp add: CanAccessByKey_def hasThing_def cache_defs sample_cached_eq tkey_def cid_def)
  moreover have "\<exists>r\<in>set (things_tbl sample_cached). t_id r = ''t1'' \<and> t_owner r = ''joe''"
    by (simp add: sample_cached_eq sample_things_def)
  ultimately show ?thesis
    using ListThingsByChannel_access [OF sample_cached_inv refl p(1), of "''t1''" "''k1''"] by simp
qed

end
