(* ===== verification/Things_Events.thy ===== *)
theory Things_Events
  imports Things_Cache
begin

text \<open>
  The event store of the things service (\<open>things/redis/streams.go\<close> and \<open>events.go\<close>): a wrapper around
  the service that appends an event to the Redis stream \<open>mainflux.things\<close> after every operation that
  succeeded. The stream is the list of all events that were ever added; Redis keeps about the last
  thousand of them. A field of an event is a text; the JSON text of metadata is \<open>JsonText\<close>.

  The section on replaying gives the events their meaning as changes of an abstract view (who owns which
  things and channels, their names and metadata, the connections) and shows that the stream tells the
  history of the tables, with the conditions under which it does.
\<close>

section \<open>The code\<close>

subsection \<open>Events\<close>

datatype things_event =
    createThingEvent string string string "metadata option"
  | updateThingEvent string string "metadata option"
  | removeThingEvent string
  | createChannelEvent string string string "metadata option"
  | updateChannelEvent string string "metadata option"
  | removeChannelEvent string
  | connectThingEvent string string
  | disconnectThingEvent string string

datatype ev_value = Text string | JsonText metadata

type_synonym ev_record = "string \<rightharpoonup> ev_value"

definition with_name :: "string \<Rightarrow> ev_record \<Rightarrow> ev_record" where
  "with_name name val = (if name \<noteq> [] then val(''name'' \<mapsto> Text name) else val)"

definition with_metadata :: "metadata option \<Rightarrow> ev_record \<Rightarrow> ev_record" where
  "with_metadata m val = (case m of None \<Rightarrow> val | Some m \<Rightarrow> val(''metadata'' \<mapsto> JsonText m))"

fun Encode :: "things_event \<Rightarrow> ev_record" where
  "Encode (createThingEvent ident owner name m) = with_metadata m (with_name name
     [''id'' \<mapsto> Text ident, ''owner'' \<mapsto> Text owner, ''operation'' \<mapsto> Text ''thing.create''])"
| "Encode (updateThingEvent ident name m) = with_metadata m (with_name name
     [''id'' \<mapsto> Text ident, ''operation'' \<mapsto> Text ''thing.update''])"
| "Encode (removeThingEvent ident) = [''id'' \<mapsto> Text ident, ''operation'' \<mapsto> Text ''thing.remove'']"
| "Encode (createChannelEvent ident owner name m) = with_metadata m (with_name name
     [''id'' \<mapsto> Text ident, ''owner'' \<mapsto> Text owner, ''operation'' \<mapsto> Text ''channel.create''])"
| "Encode (updateChannelEvent ident name m) = with_metadata m (with_name name
     [''id'' \<mapsto> Text ident, ''operation'' \<mapsto> Text ''channel.update''])"
| "Encode (removeChannelEvent ident) = [''id'' \<mapsto> Text ident, ''operation'' \<mapsto> Text ''channel.remove'']"
| "Encode (connectThingEvent chanID thingID) =
     [''chan_id'' \<mapsto> Text chanID, ''thing_id'' \<mapsto> Text thingID, ''operation'' \<mapsto> Text ''thing.connect'']"
| "Encode (disconnectThingEvent chanID thingID) =
     [''chan_id'' \<mapsto> Text chanID, ''thing_id'' \<mapsto> Text thingID, ''operation'' \<mapsto> Text ''thing.disconnect'']"

subsection \<open>The wrapper\<close>

record event_store =
  es_svc :: things_state
  es_stream :: "things_event list"

definition es_XAdd :: "things_event \<Rightarrow> event_store \<Rightarrow> event_store" where
  "es_XAdd ev es = es\<lparr>es_stream := es_stream es @ [ev]\<rparr>"

definition es_CreateThings ::
  "(string \<Rightarrow> string option) \<Rightarrow> (string \<Rightarrow> string option) \<Rightarrow> string \<Rightarrow> thing list \<Rightarrow> string list \<Rightarrow> event_store \<Rightarrow>
   (svc_error + thing list) \<times> event_store" where
  "es_CreateThings pg_uuid auth token ths ids es =
     (let (sths, s) = CreateThings pg_uuid auth token ths ids (es_svc es); es = es\<lparr>es_svc := s\<rparr> in
      case sths of
        Inl e \<Rightarrow> (Inl e, es)
      | Inr ths \<Rightarrow>
          (Inr ths, fold (\<lambda>th. es_XAdd (createThingEvent (thing_ID th) (thing_Owner th) (thing_Name th) (thing_Metadata th))) ths es))"

definition es_UpdateThing ::
  "(string \<Rightarrow> string option) \<Rightarrow> (string \<Rightarrow> string option) \<Rightarrow> string \<Rightarrow> thing \<Rightarrow> event_store \<Rightarrow> svc_error option \<times> event_store" where
  "es_UpdateThing pg_uuid auth token th es =
     (let (e, s) = UpdateThing pg_uuid auth token th (es_svc es); es = es\<lparr>es_svc := s\<rparr> in
      case e of
        Some e \<Rightarrow> (Some e, es)
      | None \<Rightarrow> (None, es_XAdd (updateThingEvent (thing_ID th) (thing_Name th) (thing_Metadata th)) es))"

definition es_UpdateKey ::
  "(string \<Rightarrow> string option) \<Rightarrow> (string \<Rightarrow> string option) \<Rightarrow> string \<Rightarrow> string \<Rightarrow> string \<Rightarrow> event_store \<Rightarrow> svc_error option \<times> event_store" where
  "es_UpdateKey pg_uuid auth token ident key es =
     (let (e, s) = UpdateKey pg_uuid auth token ident key (es_svc es) in (e, es\<lparr>es_svc := s\<rparr>))"

definition es_RemoveThing ::
  "(string \<Rightarrow> string option) \<Rightarrow> (string \<Rightarrow> string option) \<Rightarrow> string \<Rightarrow> string \<Rightarrow> event_store \<Rightarrow> svc_error option \<times> event_store" where
  "es_RemoveThing pg_uuid auth token ident es =
     (let (e, s) = RemoveThing pg_uuid auth token ident (es_svc es); es = es\<lparr>es_svc := s\<rparr> in
      case e of
        Some e \<Rightarrow> (Some e, es)
      | None \<Rightarrow> (None, es_XAdd (removeThingEvent ident) es))"

definition es_CreateChannels ::
  "(string \<Rightarrow> string option) \<Rightarrow> (string \<Rightarrow> string option) \<Rightarrow> string \<Rightarrow> channel list \<Rightarrow> string list \<Rightarrow> event_store \<Rightarrow>
   (svc_error + channel list) \<times> event_store" where
  "es_CreateChannels pg_uuid auth token chs ids es =
     (let (schs, s) = CreateChannels pg_uuid auth token chs ids (es_svc es); es = es\<lparr>es_svc := s\<rparr> in
      case schs of
        Inl e \<Rightarrow> (Inl e, es)
      | Inr chs \<Rightarrow>
          (Inr chs, fold (\<lambda>ch. es_XAdd (createChannelEvent (channel_ID ch) (channel_Owner ch) (channel_Name ch) (channel_Metadata ch))) chs es))"

definition es_UpdateChannel ::
  "(string \<Rightarrow> string option) \<Rightarrow> (string \<Rightarrow> string option) \<Rightarrow> string \<Rightarrow> channel \<Rightarrow> event_store \<Rightarrow> svc_error option \<times> event_store" where
  "es_UpdateChannel pg_uuid auth token ch es =
     (let (e, s) = UpdateChannel pg_uuid auth token ch (es_svc es); es = es\<lparr>es_svc := s\<rparr> in
      case e of
        Some e \<Rightarrow> (Some e, es)
      | None \<Rightarrow> (None, es_XAdd (updateChannelEvent (channel_ID ch) (channel_Name ch) (channel_Metadata ch)) es))"

definition es_RemoveChannel ::
  "(string \<Rightarrow> string option) \<Rightarrow> (string \<Rightarrow> string option) \<Rightarrow> string \<Rightarrow> string \<Rightarrow> event_store \<Rightarrow> svc_error option \<times> event_store" where
  "es_RemoveChannel pg_uuid auth token ident es =
     (let (e, s) = RemoveChannel pg_uuid auth token ident (es_svc es); es = es\<lparr>es_svc := s\<rparr> in
      case e of
        Some e \<Rightarrow> (Some e, es)
      | None \<Rightarrow> (None, es_XAdd (removeChannelEvent ident) es))"

definition es_Connect ::
  "(string \<Rightarrow> string option) \<Rightarrow> (string \<Rightarrow> string option) \<Rightarrow> string \<Rightarrow> string list \<Rightarrow> string list \<Rightarrow> event_store \<Rightarrow>
   svc_error option \<times> event_store" where
  "es_Connect pg_uuid auth token chIDs thIDs es =
     (let (e, s) = Connect pg_uuid auth token chIDs thIDs (es_svc es); es = es\<lparr>es_svc := s\<rparr> in
      case e of
        Some e \<Rightarrow> (Some e, es)
      | None \<Rightarrow> (None, fold (\<lambda>chID. fold (\<lambda>thID. es_XAdd (connectThingEvent chID thID)) thIDs) chIDs es))"

definition es_Disconnect ::
  "(string \<Rightarrow> string option) \<Rightarrow> (string \<Rightarrow> string option) \<Rightarrow> string \<Rightarrow> string \<Rightarrow> string \<Rightarrow> event_store \<Rightarrow> svc_error option \<times> event_store" where
  "es_Disconnect pg_uuid auth token chanID thingID es =
     (let (e, s) = Disconnect pg_uuid auth token chanID thingID (es_svc es); es = es\<lparr>es_svc := s\<rparr> in
      case e of
        Some e \<Rightarrow> (Some e, es)
      | None \<Rightarrow> (None, es_XAdd (disconnectThingEvent chanID thingID) es))"

text \<open>The calls of the adapters are passed on.\<close>

definition es_CanAccessByKey ::
  "(string \<Rightarrow> string option) \<Rightarrow> string \<Rightarrow> string \<Rightarrow> event_store \<Rightarrow> (svc_error + string) \<times> event_store" where
  "es_CanAccessByKey pg_uuid chanID key es =
     (let (r, s) = CanAccessByKey pg_uuid chanID key (es_svc es) in (r, es\<lparr>es_svc := s\<rparr>))"

definition es_CanAccessByID ::
  "(string \<Rightarrow> string option) \<Rightarrow> string \<Rightarrow> string \<Rightarrow> event_store \<Rightarrow> svc_error option \<times> event_store" where
  "es_CanAccessByID pg_uuid chanID thingID es =
     (let (e, s) = CanAccessByID pg_uuid chanID thingID (es_svc es) in (e, es\<lparr>es_svc := s\<rparr>))"

definition es_Identify :: "string \<Rightarrow> event_store \<Rightarrow> (svc_error + string) \<times> event_store" where
  "es_Identify key es = (let (r, s) = Identify key (es_svc es) in (r, es\<lparr>es_svc := s\<rparr>))"

subsection \<open>Requests\<close>

text \<open>The requests to the wrapped service.\<close>

fun es_serve ::
  "(string \<Rightarrow> string option) \<Rightarrow> (string \<Rightarrow> string option) \<Rightarrow> string \<Rightarrow> things_request \<Rightarrow> event_store \<Rightarrow> event_store" where
  "es_serve pg_uuid auth token (ReqCreateThings ths ids) es = snd (es_CreateThings pg_uuid auth token ths ids es)"
| "es_serve pg_uuid auth token (ReqUpdateThing th) es = snd (es_UpdateThing pg_uuid auth token th es)"
| "es_serve pg_uuid auth token (ReqUpdateKey ident key) es = snd (es_UpdateKey pg_uuid auth token ident key es)"
| "es_serve pg_uuid auth token (ReqRemoveThing ident) es = snd (es_RemoveThing pg_uuid auth token ident es)"
| "es_serve pg_uuid auth token (ReqCreateChannels chs ids) es = snd (es_CreateChannels pg_uuid auth token chs ids es)"
| "es_serve pg_uuid auth token (ReqUpdateChannel ch) es = snd (es_UpdateChannel pg_uuid auth token ch es)"
| "es_serve pg_uuid auth token (ReqRemoveChannel ident) es = snd (es_RemoveChannel pg_uuid auth token ident es)"
| "es_serve pg_uuid auth token (ReqConnect chIDs thIDs) es = snd (es_Connect pg_uuid auth token chIDs thIDs es)"
| "es_serve pg_uuid auth token (ReqDisconnect chanID thingID) es = snd (es_Disconnect pg_uuid auth token chanID thingID es)"
| "es_serve pg_uuid auth token (ReqCanAccessByKey chanID key) es = snd (es_CanAccessByKey pg_uuid chanID key es)"
| "es_serve pg_uuid auth token (ReqCanAccessByID chanID thingID) es = snd (es_CanAccessByID pg_uuid chanID thingID es)"
| "es_serve pg_uuid auth token (ReqIdentify key) es = snd (es_Identify key es)"

section \<open>What the wrapper adds\<close>

lemma fold_XAdd: "fold (\<lambda>x. es_XAdd (f x)) xs es = es\<lparr>es_stream := es_stream es @ map f xs\<rparr>"
  by (induction xs arbitrary: es) (simp_all add: es_XAdd_def)

lemma fold_fold_XAdd:
  "fold (\<lambda>x. fold (\<lambda>y. es_XAdd (f x y)) ys) xs es =
     es\<lparr>es_stream := es_stream es @ map (\<lambda>(x, y). f x y) (List.product xs ys)\<rparr>"
  by (induction xs arbitrary: es) (simp_all add: fold_XAdd)

lemmas es_defs = es_CreateThings_def es_UpdateThing_def es_UpdateKey_def es_RemoveThing_def es_CreateChannels_def
  es_UpdateChannel_def es_RemoveChannel_def es_Connect_def es_Disconnect_def es_CanAccessByKey_def
  es_CanAccessByID_def es_Identify_def

text \<open>The service below does the same as without the wrapper.\<close>

lemma es_serve_svc:
  "es_svc (es_serve pg_uuid auth token (ReqCreateThings ths ids) es) = snd (CreateThings pg_uuid auth token ths ids (es_svc es))"
  "es_svc (es_serve pg_uuid auth token (ReqUpdateThing th) es) = snd (UpdateThing pg_uuid auth token th (es_svc es))"
  "es_svc (es_serve pg_uuid auth token (ReqUpdateKey ident key) es) = snd (UpdateKey pg_uuid auth token ident key (es_svc es))"
  "es_svc (es_serve pg_uuid auth token (ReqRemoveThing ident) es) = snd (RemoveThing pg_uuid auth token ident (es_svc es))"
  "es_svc (es_serve pg_uuid auth token (ReqCreateChannels chs ids) es) = snd (CreateChannels pg_uuid auth token chs ids (es_svc es))"
  "es_svc (es_serve pg_uuid auth token (ReqUpdateChannel ch) es) = snd (UpdateChannel pg_uuid auth token ch (es_svc es))"
  "es_svc (es_serve pg_uuid auth token (ReqRemoveChannel ident) es) = snd (RemoveChannel pg_uuid auth token ident (es_svc es))"
  "es_svc (es_serve pg_uuid auth token (ReqConnect chIDs thIDs) es) = snd (Connect pg_uuid auth token chIDs thIDs (es_svc es))"
  "es_svc (es_serve pg_uuid auth token (ReqDisconnect c t) es) = snd (Disconnect pg_uuid auth token c t (es_svc es))"
  "es_svc (es_serve pg_uuid auth token (ReqCanAccessByKey c k) es) = snd (CanAccessByKey pg_uuid c k (es_svc es))"
  "es_svc (es_serve pg_uuid auth token (ReqCanAccessByID c t) es) = snd (CanAccessByID pg_uuid c t (es_svc es))"
  "es_svc (es_serve pg_uuid auth token (ReqIdentify k) es) = snd (Identify k (es_svc es))"
  by (simp_all add: es_defs fold_XAdd fold_fold_XAdd es_XAdd_def Let_def split: prod.splits sum.splits option.splits)

section \<open>Users are isolated from each other\<close>

text \<open>What a successful \<open>Connect\<close> appends.\<close>

definition conn_for :: "(string \<Rightarrow> string option) \<Rightarrow> string \<Rightarrow> things_state \<Rightarrow> string \<times> string \<Rightarrow> conn_row \<Rightarrow> bool" where
  "conn_for pg_uuid owner s ct r \<longleftrightarrow>
     pg_uuid (fst ct) = Some (co_channel r) \<and> pg_uuid (snd ct) = Some (co_thing r) \<and> co_owner r = owner \<and>
     (\<exists>c\<in>set (channels_tbl s). c_id c = co_channel r \<and> c_owner c = owner) \<and>
     (\<exists>t\<in>set (things_tbl s). t_id t = co_thing r \<and> t_owner t = owner)"

lemma insert_connections_rows:
  "insert_connections pg_uuid owner s cts conns = Inr conns' \<Longrightarrow>
   \<exists>rows. conns' = conns @ rows \<and> list_all2 (conn_for pg_uuid owner s) cts rows"
proof (induction cts arbitrary: conns)
  case (Cons ct cts)
  then obtain conns1 where c1: "insert_connection pg_uuid owner s ct conns = Inr conns1"
    and c2: "insert_connections pg_uuid owner s cts conns1 = Inr conns'"
    by (auto split: sum.splits)
  obtain c t where row: "pg_uuid (fst ct) = Some c" "pg_uuid (snd ct) = Some t"
    "conns1 = conns @ [\<lparr> co_channel = c, co_thing = t, co_owner = owner \<rparr>]"
    "\<exists>r\<in>set (channels_tbl s). c_id r = c \<and> c_owner r = owner" "\<exists>r\<in>set (things_tbl s). t_id r = t \<and> t_owner r = owner"
    using c1 by (auto simp: insert_connection_def Let_def list_ex_iff split: option.splits if_splits)
  define r where "r = \<lparr> co_channel = c, co_thing = t, co_owner = owner \<rparr>"
  have r: "conns1 = conns @ [r]" "conn_for pg_uuid owner s ct r"
    using row by (simp_all add: conn_for_def r_def)
  from Cons.IH [OF c2] obtain rows where "conns' = conns1 @ rows" "list_all2 (conn_for pg_uuid owner s) cts rows"
    by blast
  with r show ?case
    by (intro exI [of _ "r # rows"]) simp
qed simp

lemma assign_ids_owner:
  "assign_ids owner ths ids = Some (ths', rest) \<Longrightarrow> \<forall>th\<in>set ths'. thing_Owner th = owner"
  by (induction ths arbitrary: ids ths') (fastforce simp: Let_def split: list.splits option.splits if_splits)+

lemma assign_channel_ids_owner:
  "assign_channel_ids owner chs ids = Some chs' \<Longrightarrow> \<forall>ch\<in>set chs'. channel_Owner ch = owner"
  by (induction chs arbitrary: ids chs') (fastforce split: list.splits option.splits)+

lemma stored_channel_Some:
  "stored_channel pg_uuid ch = Some r \<longleftrightarrow>
     pg_uuid (channel_ID ch) = Some (c_id r) \<and> c_owner r = channel_Owner ch \<and>
     varchar 1024 (channel_Name ch) = Some (c_name r) \<and> c_metadata r = c_metadata (toDBChannel ch)"
  by (cases r) (auto simp: stored_channel_def toDBChannel_def Let_def split: option.splits)

lemma channels_Save_Inr:
  "channels_Save pg_uuid chs tbl = Inr tbl' \<Longrightarrow>
   \<exists>rows. tbl' = tbl @ rows \<and> list_all2 (\<lambda>ch r. stored_channel pg_uuid ch = Some r) chs rows"
proof (induction chs arbitrary: tbl)
  case (Cons ch chs)
  then obtain r where r: "stored_channel pg_uuid ch = Some r" "channels_Save pg_uuid chs (tbl @ [r]) = Inr tbl'"
    by (auto split: option.splits if_splits)
  from Cons.IH [OF r(2)] obtain rows where "tbl' = (tbl @ [r]) @ rows"
    "list_all2 (\<lambda>ch r. stored_channel pg_uuid ch = Some r) chs rows"
    by blast
  with r(1) show ?case
    by (intro exI [of _ "r # rows"]) simp
qed simp

text \<open>The tables as one user sees them.\<close>

definition rows_of :: "string \<Rightarrow> things_state \<Rightarrow> thing_row list \<times> channel_row list \<times> conn_row list" where
  "rows_of owner s = (filter (\<lambda>r. t_owner r = owner) (things_tbl s), filter (\<lambda>r. c_owner r = owner) (channels_tbl s),
     filter (\<lambda>r. co_owner r = owner) (conns_tbl s))"

lemma list_all2_none:
  "list_all2 R xs ys \<Longrightarrow> (\<And>x y. x \<in> set xs \<Longrightarrow> R x y \<Longrightarrow> \<not> P y) \<Longrightarrow> filter P ys = []"
  by (induction rule: list_all2_induct) auto

lemma filter_map_other:
  "(\<And>x. x \<in> set xs \<Longrightarrow> P (f x) = P x) \<Longrightarrow> (\<And>x. x \<in> set xs \<Longrightarrow> P x \<Longrightarrow> f x = x) \<Longrightarrow> filter P (map f xs) = filter P xs"
  by (induction xs) auto

lemma CreateThings_foreign:
  assumes "auth token \<noteq> Some owner"
  shows "rows_of owner (snd (CreateThings pg_uuid auth token ths ids s)) = rows_of owner s"
proof (cases "snd (CreateThings pg_uuid auth token ths ids s) = s")
  case False
  then obtain ow ths' rest tbl where *: "auth token = Some ow" "assign_ids ow ths ids = Some (ths', rest)"
    "things_Save pg_uuid ths' (things_tbl s) = Inr tbl" "snd (CreateThings pg_uuid auth token ths ids s) = s\<lparr>things_tbl := tbl\<rparr>"
    by (auto simp: CreateThings_def split: option.splits sum.splits)
  obtain rows where rows: "tbl = things_tbl s @ rows" "list_all2 (\<lambda>th r. stored_thing pg_uuid th = Some r) ths' rows"
    using things_Save_Inr [OF *(3)] by blast
  have "filter (\<lambda>r. t_owner r = owner) rows = []"
    using list_all2_none [OF rows(2), of "\<lambda>r. t_owner r = owner"] assign_ids_owner [OF *(2)] *(1) assms
    by (auto simp: stored_thing_Some)
  then show ?thesis
    by (simp add: *(4) rows_of_def rows(1))
qed simp

lemma CreateChannels_foreign:
  assumes "auth token \<noteq> Some owner"
  shows "rows_of owner (snd (CreateChannels pg_uuid auth token chs ids s)) = rows_of owner s"
proof (cases "snd (CreateChannels pg_uuid auth token chs ids s) = s")
  case False
  then obtain ow chs' tbl where *: "auth token = Some ow" "assign_channel_ids ow chs ids = Some chs'"
    "channels_Save pg_uuid chs' (channels_tbl s) = Inr tbl" "snd (CreateChannels pg_uuid auth token chs ids s) = s\<lparr>channels_tbl := tbl\<rparr>"
    by (auto simp: CreateChannels_def split: option.splits sum.splits)
  obtain rows where rows: "tbl = channels_tbl s @ rows" "list_all2 (\<lambda>ch r. stored_channel pg_uuid ch = Some r) chs' rows"
    using channels_Save_Inr [OF *(3)] by blast
  have "filter (\<lambda>r. c_owner r = owner) rows = []"
    using list_all2_none [OF rows(2), of "\<lambda>r. c_owner r = owner"] assign_channel_ids_owner [OF *(2)] *(1) assms
    by (auto simp: stored_channel_Some)
  then show ?thesis
    by (simp add: *(4) rows_of_def rows(1))
qed simp

lemma Connect_foreign:
  assumes "auth token \<noteq> Some owner"
  shows "rows_of owner (snd (Connect pg_uuid auth token chIDs thIDs s)) = rows_of owner s"
proof (cases "snd (Connect pg_uuid auth token chIDs thIDs s) = s")
  case False
  then obtain ow tbl where *: "auth token = Some ow"
    "insert_connections pg_uuid ow s (List.product chIDs thIDs) (conns_tbl s) = Inr tbl"
    "snd (Connect pg_uuid auth token chIDs thIDs s) = s\<lparr>conns_tbl := tbl\<rparr>"
    by (auto simp: Connect_def channels_Connect_def split: option.splits sum.splits)
  obtain rows where rows: "tbl = conns_tbl s @ rows" "list_all2 (conn_for pg_uuid ow s) (List.product chIDs thIDs) rows"
    using insert_connections_rows [OF *(2)] by blast
  have "filter (\<lambda>r. co_owner r = owner) rows = []"
    using list_all2_none [OF rows(2), of "\<lambda>r. co_owner r = owner"] *(1) assms by (auto simp: conn_for_def)
  then show ?thesis
    by (simp add: *(3) rows_of_def rows(1))
qed simp

lemma updates_foreign:
  assumes "auth token \<noteq> Some owner"
  shows "rows_of owner (snd (UpdateThing pg_uuid auth token th s)) = rows_of owner s"
    and "rows_of owner (snd (UpdateKey pg_uuid auth token ident key s)) = rows_of owner s"
    and "rows_of owner (snd (UpdateChannel pg_uuid auth token ch s)) = rows_of owner s"
  using assms
  by (auto simp: UpdateThing_def UpdateKey_def UpdateChannel_def things_Update_def things_UpdateKey_def
      channels_Update_def toDBThing_def toDBChannel_def rows_of_def Let_def split: option.splits sum.splits if_splits
      intro!: filter_map_other)

lemma removals_foreign:
  assumes "auth token \<noteq> Some owner"
  shows "rows_of owner (snd (RemoveThing pg_uuid auth token ident s)) = rows_of owner s"
    and "rows_of owner (snd (RemoveChannel pg_uuid auth token ident s)) = rows_of owner s"
    and "rows_of owner (snd (Disconnect pg_uuid auth token c t s)) = rows_of owner s"
  using assms
  by (auto simp: RemoveThing_def RemoveChannel_def Disconnect_def things_Remove_def channels_Remove_def
      channels_Disconnect_def thingCache_Remove_def channelCache_Remove_def channelCache_Disconnect_def rows_of_def Let_def
      split: option.splits sum.splits if_splits intro!: filter_cong)

lemma access_foreign:
  "rows_of owner (snd (CanAccessByKey pg_uuid c k s)) = rows_of owner s"
  "rows_of owner (snd (CanAccessByID pg_uuid c t s)) = rows_of owner s"
  "rows_of owner (snd (Identify k s)) = rows_of owner s"
  by (simp_all add: CanAccessByKey_def CanAccessByID_def Identify_def channelCache_Connect_def thingCache_Save_def
      rows_of_def split: option.splits)

text \<open>
  C11. Users are isolated from each other: a request changes no row of any user other than the one that its
  token authenticates, and without a valid token it changes no row at all. This holds for every request with
  any arguments, also for identifiers of other users' things and channels.
\<close>

theorem request_keeps_foreign_rows:
  assumes "auth token \<noteq> Some owner"
  shows "rows_of owner (es_svc (es_serve pg_uuid auth token req es)) = rows_of owner (es_svc es)"
  using assms CreateThings_foreign CreateChannels_foreign Connect_foreign updates_foreign removals_foreign access_foreign
  by (cases req) (simp_all add: es_serve_svc del: es_serve.simps)

section \<open>The stream tells the history of the tables\<close>

text \<open>The view that the events describe, and what an event does to it.\<close>

record things_view =
  v_things :: "(string \<times> string \<times> string \<times> metadata) set"
  v_channels :: "(string \<times> string \<times> string \<times> metadata option) set"
  v_conns :: "(string \<times> string) set"

definition thing_meta :: "metadata option \<Rightarrow> metadata" where
  "thing_meta m = (case m of None \<Rightarrow> [] | Some m \<Rightarrow> m)"

definition channel_meta :: "metadata option \<Rightarrow> metadata option" where
  "channel_meta m = (case m of None \<Rightarrow> None | Some m \<Rightarrow> if m = [] then None else Some m)"

definition renamed :: "string \<Rightarrow> string \<Rightarrow> 'm \<Rightarrow> string \<times> string \<times> string \<times> 'm \<Rightarrow> string \<times> string \<times> string \<times> 'm" where
  "renamed i n m x = (if fst x = i then (i, fst (snd x), n, m) else x)"

fun apply_event :: "things_event \<Rightarrow> things_view \<Rightarrow> things_view" where
  "apply_event (createThingEvent i ow n m) v = v\<lparr>v_things := insert (i, ow, n, thing_meta m) (v_things v)\<rparr>"
| "apply_event (updateThingEvent i n m) v = v\<lparr>v_things := renamed i n (thing_meta m) ` v_things v\<rparr>"
| "apply_event (removeThingEvent i) v =
     v\<lparr>v_things := {x \<in> v_things v. fst x \<noteq> i}, v_conns := {x \<in> v_conns v. snd x \<noteq> i}\<rparr>"
| "apply_event (createChannelEvent i ow n m) v = v\<lparr>v_channels := insert (i, ow, n, channel_meta m) (v_channels v)\<rparr>"
| "apply_event (updateChannelEvent i n m) v = v\<lparr>v_channels := renamed i n (channel_meta m) ` v_channels v\<rparr>"
| "apply_event (removeChannelEvent i) v =
     v\<lparr>v_channels := {x \<in> v_channels v. fst x \<noteq> i}, v_conns := {x \<in> v_conns v. fst x \<noteq> i}\<rparr>"
| "apply_event (connectThingEvent c t) v = v\<lparr>v_conns := insert (c, t) (v_conns v)\<rparr>"
| "apply_event (disconnectThingEvent c t) v = v\<lparr>v_conns := v_conns v - {(c, t)}\<rparr>"

definition thing_view :: "thing_row \<Rightarrow> string \<times> string \<times> string \<times> metadata" where
  "thing_view r = (t_id r, t_owner r, t_name r, t_metadata r)"

definition channel_view :: "channel_row \<Rightarrow> string \<times> string \<times> string \<times> metadata option" where
  "channel_view r = (c_id r, c_owner r, c_name r, c_metadata r)"

definition conn_view :: "conn_row \<Rightarrow> string \<times> string" where
  "conn_view r = (co_channel r, co_thing r)"

definition view_of :: "things_state \<Rightarrow> things_view" where
  "view_of s = \<lparr> v_things = thing_view ` set (things_tbl s), v_channels = channel_view ` set (channels_tbl s),
     v_conns = conn_view ` set (conns_tbl s) \<rparr>"

text \<open>Identifiers are unique, and a connection belongs to the owner of its thing and of its channel.\<close>

definition stream_wf :: "things_state \<Rightarrow> bool" where
  "stream_wf s \<longleftrightarrow>
     distinct (map t_id (things_tbl s)) \<and> distinct (map c_id (channels_tbl s)) \<and>
     (\<forall>r\<in>set (conns_tbl s). \<exists>t\<in>set (things_tbl s). t_id t = co_thing r \<and> t_owner t = co_owner r) \<and>
     (\<forall>r\<in>set (conns_tbl s). \<exists>c\<in>set (channels_tbl s). c_id c = co_channel r \<and> c_owner c = co_owner r)"

text \<open>The requests whose events say what happened: new identifiers are new, things and channels are named by the
  canonical texts of their identifiers, names fit into their column, and nobody asks to remove what belongs to
  another user.\<close>

fun told_request ::
  "(string \<Rightarrow> string option) \<Rightarrow> (string \<Rightarrow> string option) \<Rightarrow> string \<Rightarrow> things_request \<Rightarrow> things_state \<Rightarrow> bool" where
  "told_request pg_uuid auth token (ReqCreateThings ths ids) s \<longleftrightarrow>
     distinct ids \<and> (\<forall>i\<in>set ids. pg_uuid i = Some i \<and> i \<notin> t_id ` set (things_tbl s)) \<and>
     (\<forall>th\<in>set ths. length (thing_Name th) \<le> 1024)"
| "told_request pg_uuid auth token (ReqUpdateThing th) s \<longleftrightarrow>
     pg_uuid (thing_ID th) = Some (thing_ID th) \<and> length (thing_Name th) \<le> 1024"
| "told_request pg_uuid auth token (ReqRemoveThing i) s \<longleftrightarrow>
     pg_uuid i = Some i \<and> (\<forall>r\<in>set (things_tbl s). t_id r = i \<longrightarrow> auth token = Some (t_owner r))"
| "told_request pg_uuid auth token (ReqCreateChannels chs ids) s \<longleftrightarrow>
     distinct ids \<and> (\<forall>i\<in>set ids. pg_uuid i = Some i \<and> i \<notin> c_id ` set (channels_tbl s)) \<and>
     (\<forall>ch\<in>set chs. length (channel_Name ch) \<le> 1024)"
| "told_request pg_uuid auth token (ReqUpdateChannel ch) s \<longleftrightarrow>
     pg_uuid (channel_ID ch) = Some (channel_ID ch) \<and> length (channel_Name ch) \<le> 1024"
| "told_request pg_uuid auth token (ReqRemoveChannel i) s \<longleftrightarrow>
     pg_uuid i = Some i \<and> (\<forall>r\<in>set (channels_tbl s). c_id r = i \<longrightarrow> auth token = Some (c_owner r))"
| "told_request pg_uuid auth token (ReqConnect chIDs thIDs) s \<longleftrightarrow> (\<forall>i\<in>set chIDs \<union> set thIDs. pg_uuid i = Some i)"
| "told_request pg_uuid auth token (ReqDisconnect c t) s \<longleftrightarrow> pg_uuid c = Some c \<and> pg_uuid t = Some t"
| "told_request pg_uuid auth token _ s \<longleftrightarrow> True"

inductive es_step ::
  "(string \<Rightarrow> string option) \<Rightarrow> (string \<Rightarrow> string option) \<Rightarrow> event_store \<Rightarrow> event_store \<Rightarrow> bool"
  for pg_uuid auth where
  serve: "told_request pg_uuid auth token req (es_svc es) \<Longrightarrow> es_step pg_uuid auth es (es_serve pg_uuid auth token req es)"

text \<open>A step of the service is told by the events that it adds.\<close>

definition told :: "event_store \<Rightarrow> event_store \<Rightarrow> bool" where
  "told es es' \<longleftrightarrow>
     (\<exists>new. es_stream es' = es_stream es @ new \<and> view_of (es_svc es') = fold apply_event new (view_of (es_svc es))) \<and>
     stream_wf (es_svc es')"

lemma toldI:
  assumes "es_stream es' = es_stream es @ new" "view_of (es_svc es') = fold apply_event new (view_of (es_svc es))"
    "stream_wf (es_svc es')"
  shows "told es es'"
  using assms by (auto simp: told_def)

lemma same_tables:
  assumes "things_tbl s' = things_tbl s" "channels_tbl s' = channels_tbl s" "conns_tbl s' = conns_tbl s"
  shows "view_of s' = view_of s" "stream_wf s' = stream_wf s"
  using assms by (simp_all add: view_of_def stream_wf_def)

lemma told_quiet:
  assumes "stream_wf (es_svc es)" "es_stream es' = es_stream es" "things_tbl (es_svc es') = things_tbl (es_svc es)"
    "channels_tbl (es_svc es') = channels_tbl (es_svc es)" "conns_tbl (es_svc es') = conns_tbl (es_svc es)"
  shows "told es es'"
  using assms same_tables [OF assms(3-5)] by (intro toldI [of _ _ "[]"]) simp_all

lemma stream_wf_unique:
  assumes "stream_wf s"
  shows "r \<in> set (things_tbl s) \<Longrightarrow> r' \<in> set (things_tbl s) \<Longrightarrow> t_id r = t_id r' \<Longrightarrow> r = r'"
    and "c \<in> set (channels_tbl s) \<Longrightarrow> c' \<in> set (channels_tbl s) \<Longrightarrow> c_id c = c_id c' \<Longrightarrow> c = c'"
  using assms by (auto simp: stream_wf_def distinct_map dest: inj_onD)

lemma stream_wf_owner:
  assumes "stream_wf s" "x \<in> set (conns_tbl s)"
  shows "r \<in> set (things_tbl s) \<Longrightarrow> t_id r = co_thing x \<Longrightarrow> t_owner r = co_owner x"
    and "c \<in> set (channels_tbl s) \<Longrightarrow> c_id c = co_channel x \<Longrightarrow> c_owner c = co_owner x"
  using assms stream_wf_unique [OF assms(1)] unfolding stream_wf_def by metis+

subsection \<open>Creating\<close>

lemma assign_ids_names: "assign_ids owner ths ids = Some (ths', rest) \<Longrightarrow> map thing_Name ths' = map thing_Name ths"
  by (induction ths arbitrary: ids ths') (fastforce simp: Let_def split: list.splits option.splits if_splits)+

lemma assign_channel_ids_new:
  "assign_channel_ids owner chs ids = Some chs' \<Longrightarrow> distinct ids \<Longrightarrow>
   distinct (map channel_ID chs') \<and> set (map channel_ID chs') \<subseteq> set ids \<and> map channel_Name chs' = map channel_Name chs"
  by (induction chs arbitrary: ids chs') (fastforce split: list.splits option.splits)+

lemma all_map_eq: "map f xs = map g ys \<Longrightarrow> \<forall>y\<in>set ys. P (g y) \<Longrightarrow> \<forall>x\<in>set xs. P (f x)"
  by (drule arg_cong [of _ _ "list_all P"]) (simp add: list_all_iff)

lemma varchar_fits: "length x \<le> n \<Longrightarrow> varchar n x = Some x"
  by (simp add: varchar_def)

lemma stored_things_view:
  assumes "list_all2 (\<lambda>th r. stored_thing pg_uuid th = Some r) ths rows"
    and "\<forall>th\<in>set ths. pg_uuid (thing_ID th) = Some (thing_ID th) \<and> length (thing_Name th) \<le> 1024"
  shows "map thing_view rows = map (\<lambda>th. (thing_ID th, thing_Owner th, thing_Name th, thing_meta (thing_Metadata th))) ths"
  using assms by (induction) (auto simp: stored_thing_Some thing_view_def varchar_fits toDBThing_def thing_meta_def)

lemma stored_channels_view:
  assumes "list_all2 (\<lambda>ch r. stored_channel pg_uuid ch = Some r) chs rows"
    and "\<forall>ch\<in>set chs. pg_uuid (channel_ID ch) = Some (channel_ID ch) \<and> length (channel_Name ch) \<le> 1024"
  shows "map channel_view rows = map (\<lambda>ch. (channel_ID ch, channel_Owner ch, channel_Name ch, channel_meta (channel_Metadata ch))) chs"
  using assms by (induction) (auto simp: stored_channel_Some channel_view_def varchar_fits toDBChannel_def channel_meta_def)

lemma replay_created_things:
  "fold apply_event (map (\<lambda>th. createThingEvent (thing_ID th) (thing_Owner th) (thing_Name th) (thing_Metadata th)) ths) v =
   v\<lparr>v_things := v_things v \<union> set (map (\<lambda>th. (thing_ID th, thing_Owner th, thing_Name th, thing_meta (thing_Metadata th))) ths)\<rparr>"
  by (induction ths arbitrary: v) simp_all

lemma replay_created_channels:
  "fold apply_event (map (\<lambda>ch. createChannelEvent (channel_ID ch) (channel_Owner ch) (channel_Name ch) (channel_Metadata ch)) chs) v =
   v\<lparr>v_channels := v_channels v \<union> set (map (\<lambda>ch. (channel_ID ch, channel_Owner ch, channel_Name ch, channel_meta (channel_Metadata ch))) chs)\<rparr>"
  by (induction chs arbitrary: v) simp_all

lemma map_view_ids:
  "map thing_view rows = map f ths \<Longrightarrow> map t_id rows = map (fst \<circ> f) ths"
  "map channel_view crows = map g chs \<Longrightarrow> map c_id crows = map (fst \<circ> g) chs"
  by (drule arg_cong [of _ _ "map fst"], simp add: thing_view_def channel_view_def comp_def)+

lemma told_CreateThings:
  assumes wf: "stream_wf (es_svc es)" and req: "told_request pg_uuid auth token (ReqCreateThings ths ids) (es_svc es)"
  shows "told es (es_serve pg_uuid auth token (ReqCreateThings ths ids) es)"
proof (cases "fst (CreateThings pg_uuid auth token ths ids (es_svc es))")
  case (Inl e)
  then show ?thesis
    by (intro told_quiet [OF wf]) (auto simp: es_CreateThings_def CreateThings_def Let_def split: option.splits sum.splits)
next
  case (Inr ths')
  let ?s = "es_svc es"
  obtain owner rest tbl where *: "assign_ids owner ths ids = Some (ths', rest)"
    "things_Save pg_uuid ths' (things_tbl ?s) = Inr tbl" "CreateThings pg_uuid auth token ths ids ?s = (Inr ths', ?s\<lparr>things_tbl := tbl\<rparr>)"
    using Inr by (auto simp: CreateThings_def split: option.splits sum.splits)
  obtain rows where rows: "tbl = things_tbl ?s @ rows" "list_all2 (\<lambda>th r. stored_thing pg_uuid th = Some r) ths' rows"
    using things_Save_Inr [OF *(2)] by blast
  note A = assign_ids_new [OF *(1)]
  have names: "\<forall>th\<in>set ths'. length (thing_Name th) \<le> 1024"
    using all_map_eq [OF assign_ids_names [OF *(1)], of "\<lambda>n. length n \<le> 1024"] req by simp
  with A req have view: "map thing_view rows = map (\<lambda>th. (thing_ID th, thing_Owner th, thing_Name th, thing_meta (thing_Metadata th))) ths'"
    by (intro stored_things_view [OF rows(2)]) auto
  from map_view_ids(1) [OF this] have ids: "map t_id rows = map thing_ID ths'"
    by (simp add: comp_def)
  show ?thesis
  proof (rule toldI)
    show "es_stream (es_serve pg_uuid auth token (ReqCreateThings ths ids) es) =
        es_stream es @ map (\<lambda>th. createThingEvent (thing_ID th) (thing_Owner th) (thing_Name th) (thing_Metadata th)) ths'"
      by (simp add: es_CreateThings_def *(3) fold_XAdd)
    show "view_of (es_svc (es_serve pg_uuid auth token (ReqCreateThings ths ids) es)) =
        fold apply_event (map (\<lambda>th. createThingEvent (thing_ID th) (thing_Owner th) (thing_Name th) (thing_Metadata th)) ths') (view_of ?s)"
      unfolding es_serve_svc *(3) replay_created_things view [symmetric] by (simp add: view_of_def rows(1) image_Un)
    have "distinct (map t_id rows)" "set (map t_id rows) \<inter> t_id ` set (things_tbl ?s) = {}"
      using A req unfolding ids by auto
    then show "stream_wf (es_svc (es_serve pg_uuid auth token (ReqCreateThings ths ids) es))"
      unfolding es_serve_svc *(3) using wf by (auto simp: stream_wf_def rows(1))
  qed
qed

lemma told_CreateChannels:
  assumes wf: "stream_wf (es_svc es)" and req: "told_request pg_uuid auth token (ReqCreateChannels chs ids) (es_svc es)"
  shows "told es (es_serve pg_uuid auth token (ReqCreateChannels chs ids) es)"
proof (cases "fst (CreateChannels pg_uuid auth token chs ids (es_svc es))")
  case (Inl e)
  then show ?thesis
    by (intro told_quiet [OF wf]) (auto simp: es_CreateChannels_def CreateChannels_def Let_def split: option.splits sum.splits)
next
  case (Inr chs')
  let ?s = "es_svc es"
  obtain owner tbl where *: "assign_channel_ids owner chs ids = Some chs'"
    "channels_Save pg_uuid chs' (channels_tbl ?s) = Inr tbl"
    "CreateChannels pg_uuid auth token chs ids ?s = (Inr chs', ?s\<lparr>channels_tbl := tbl\<rparr>)"
    using Inr by (auto simp: CreateChannels_def split: option.splits sum.splits)
  obtain rows where rows: "tbl = channels_tbl ?s @ rows" "list_all2 (\<lambda>ch r. stored_channel pg_uuid ch = Some r) chs' rows"
    using channels_Save_Inr [OF *(2)] by blast
  have A: "distinct (map channel_ID chs')" "set (map channel_ID chs') \<subseteq> set ids" "map channel_Name chs' = map channel_Name chs"
    using assign_channel_ids_new [OF *(1)] req by auto
  then have "\<forall>ch\<in>set chs'. length (channel_Name ch) \<le> 1024"
    using all_map_eq [OF A(3), of "\<lambda>n. length n \<le> 1024"] req by simp
  with A req have view: "map channel_view rows =
      map (\<lambda>ch. (channel_ID ch, channel_Owner ch, channel_Name ch, channel_meta (channel_Metadata ch))) chs'"
    by (intro stored_channels_view [OF rows(2)]) auto
  from map_view_ids(2) [OF this] have ids: "map c_id rows = map channel_ID chs'"
    by (simp add: comp_def)
  show ?thesis
  proof (rule toldI)
    show "es_stream (es_serve pg_uuid auth token (ReqCreateChannels chs ids) es) =
        es_stream es @ map (\<lambda>ch. createChannelEvent (channel_ID ch) (channel_Owner ch) (channel_Name ch) (channel_Metadata ch)) chs'"
      by (simp add: es_CreateChannels_def *(3) fold_XAdd)
    show "view_of (es_svc (es_serve pg_uuid auth token (ReqCreateChannels chs ids) es)) =
        fold apply_event (map (\<lambda>ch. createChannelEvent (channel_ID ch) (channel_Owner ch) (channel_Name ch) (channel_Metadata ch)) chs') (view_of ?s)"
      unfolding es_serve_svc *(3) replay_created_channels view [symmetric] by (simp add: view_of_def rows(1) image_Un)
    have "distinct (map c_id rows)" "set (map c_id rows) \<inter> c_id ` set (channels_tbl ?s) = {}"
      using A req unfolding ids by auto
    then show "stream_wf (es_svc (es_serve pg_uuid auth token (ReqCreateChannels chs ids) es))"
      unfolding es_serve_svc *(3) using wf by (auto simp: stream_wf_def rows(1))
  qed
qed

subsection \<open>Updating and removing\<close>

lemma stream_wf_map:
  assumes "stream_wf s" and "things_tbl s' = map f (things_tbl s)" "channels_tbl s' = map g (channels_tbl s)" "conns_tbl s' = conns_tbl s"
    and "\<And>r. t_id (f r) = t_id r \<and> t_owner (f r) = t_owner r" "\<And>r. c_id (g r) = c_id r \<and> c_owner (g r) = c_owner r"
  shows "stream_wf s'"
  using assms by (simp add: stream_wf_def comp_def)

lemma stream_wf_filter:
  assumes "stream_wf s" and "things_tbl s' = filter P (things_tbl s)" "channels_tbl s' = filter Q (channels_tbl s)"
    "conns_tbl s' = filter R (conns_tbl s)"
    and "\<And>x t. R x \<Longrightarrow> t_id t = co_thing x \<Longrightarrow> t_owner t = co_owner x \<Longrightarrow> P t"
      "\<And>x c. R x \<Longrightarrow> c_id c = co_channel x \<Longrightarrow> c_owner c = co_owner x \<Longrightarrow> Q c"
  shows "stream_wf s'"
proof -
  have "\<exists>t\<in>set (filter P (things_tbl s)). t_id t = co_thing x \<and> t_owner t = co_owner x"
    "\<exists>c\<in>set (filter Q (channels_tbl s)). c_id c = co_channel x \<and> c_owner c = co_owner x"
    if "x \<in> set (conns_tbl s)" "R x" for x
  proof -
    have "\<exists>t\<in>set (things_tbl s). t_id t = co_thing x \<and> t_owner t = co_owner x"
      "\<exists>c\<in>set (channels_tbl s). c_id c = co_channel x \<and> c_owner c = co_owner x"
      using assms(1) that(1) by (simp_all add: stream_wf_def)
    moreover have "P t" if "t_id t = co_thing x" "t_owner t = co_owner x" for t
      by (rule assms(5) [OF \<open>R x\<close> that])
    moreover have "Q c" if "c_id c = co_channel x" "c_owner c = co_owner x" for c
      by (rule assms(6) [OF \<open>R x\<close> that])
    ultimately show "\<exists>t\<in>set (filter P (things_tbl s)). t_id t = co_thing x \<and> t_owner t = co_owner x"
      "\<exists>c\<in>set (filter Q (channels_tbl s)). c_id c = co_channel x \<and> c_owner c = co_owner x"
      by (simp_all, blast+)
  qed
  with assms(1) show ?thesis
    by (simp add: stream_wf_def assms(2-4) distinct_map_filter)
qed

lemma filter_view: "(\<And>r. p (view r) = q r) \<Longrightarrow> view ` set (filter q xs) = {x \<in> view ` set xs. p x}"
  by auto

lemma filter_views:
  "thing_view ` set (filter (\<lambda>r. t_id r \<noteq> i) xs) = {x \<in> thing_view ` set xs. fst x \<noteq> i}"
  "channel_view ` set (filter (\<lambda>r. c_id r \<noteq> i) ys) = {x \<in> channel_view ` set ys. fst x \<noteq> i}"
  "conn_view ` set (filter (\<lambda>r. co_thing r \<noteq> i) zs) = {x \<in> conn_view ` set zs. snd x \<noteq> i}"
  "conn_view ` set (filter (\<lambda>r. co_channel r \<noteq> i) zs) = {x \<in> conn_view ` set zs. fst x \<noteq> i}"
  by (rule filter_view, simp add: thing_view_def channel_view_def conn_view_def)+

lemma image_view: "(\<And>r. r \<in> A \<Longrightarrow> view (f r) = g (view r)) \<Longrightarrow> view ` f ` A = g ` view ` A"
  by (auto simp: image_image)

lemma told_UpdateThing:
  assumes wf: "stream_wf (es_svc es)" and req: "told_request pg_uuid auth token (ReqUpdateThing th) (es_svc es)"
  shows "told es (es_serve pg_uuid auth token (ReqUpdateThing th) es)"
proof (cases "fst (UpdateThing pg_uuid auth token th (es_svc es))")
  case (Some e)
  then show ?thesis
    by (intro told_quiet [OF wf]) (auto simp: es_UpdateThing_def UpdateThing_def Let_def split: option.splits sum.splits)
next
  case None
  let ?s = "es_svc es" and ?i = "thing_ID th"
  obtain owner h where h: "h \<in> set (things_tbl ?s)" "t_id h = ?i" "t_owner h = owner"
    and up: "UpdateThing pg_uuid auth token th ?s = (None, ?s\<lparr>things_tbl := map (\<lambda>r. if t_owner r = owner \<and> t_id r = ?i
      then r\<lparr>t_name := thing_Name th, t_metadata := thing_meta (thing_Metadata th)\<rparr> else r) (things_tbl ?s)\<rparr>)"
    using None req by (auto simp: UpdateThing_def things_Update_def toDBThing_def thing_meta_def varchar_fits Let_def list_ex_iff
        split: option.splits sum.splits if_splits)
  define f where "f = (\<lambda>r :: thing_row. if t_owner r = owner \<and> t_id r = ?i
      then r\<lparr>t_name := thing_Name th, t_metadata := thing_meta (thing_Metadata th)\<rparr> else r)"
  have s': "es_svc (es_serve pg_uuid auth token (ReqUpdateThing th) es) = ?s\<lparr>things_tbl := map f (things_tbl ?s)\<rparr>"
    unfolding es_serve_svc up f_def by simp
  have "thing_view (f r) = renamed ?i (thing_Name th) (thing_meta (thing_Metadata th)) (thing_view r)"
    if "r \<in> set (things_tbl ?s)" for r
    using stream_wf_unique(1) [OF wf that h(1)] h by (auto simp: thing_view_def renamed_def f_def)
  note view = image_view [of "set (things_tbl ?s)" thing_view f, OF this]
  show ?thesis
  proof (rule toldI)
    show "es_stream (es_serve pg_uuid auth token (ReqUpdateThing th) es) =
        es_stream es @ [updateThingEvent ?i (thing_Name th) (thing_Metadata th)]"
      by (simp add: es_UpdateThing_def up es_XAdd_def)
    show "view_of (es_svc (es_serve pg_uuid auth token (ReqUpdateThing th) es)) =
        fold apply_event [updateThingEvent ?i (thing_Name th) (thing_Metadata th)] (view_of ?s)"
      unfolding s' by (simp add: view_of_def view)
    show "stream_wf (es_svc (es_serve pg_uuid auth token (ReqUpdateThing th) es))"
      unfolding s' by (rule stream_wf_map [OF wf, of _ f "\<lambda>r. r"]) (simp_all add: f_def)
  qed
qed

lemma told_UpdateChannel:
  assumes wf: "stream_wf (es_svc es)" and req: "told_request pg_uuid auth token (ReqUpdateChannel ch) (es_svc es)"
  shows "told es (es_serve pg_uuid auth token (ReqUpdateChannel ch) es)"
proof (cases "fst (UpdateChannel pg_uuid auth token ch (es_svc es))")
  case (Some e)
  then show ?thesis
    by (intro told_quiet [OF wf]) (auto simp: es_UpdateChannel_def UpdateChannel_def Let_def split: option.splits sum.splits)
next
  case None
  let ?s = "es_svc es" and ?i = "channel_ID ch"
  obtain owner h where h: "h \<in> set (channels_tbl ?s)" "c_id h = ?i" "c_owner h = owner"
    and up: "UpdateChannel pg_uuid auth token ch ?s = (None, ?s\<lparr>channels_tbl := map (\<lambda>r. if c_owner r = owner \<and> c_id r = ?i
      then r\<lparr>c_name := channel_Name ch, c_metadata := channel_meta (channel_Metadata ch)\<rparr> else r) (channels_tbl ?s)\<rparr>)"
    using None req by (auto simp: UpdateChannel_def channels_Update_def toDBChannel_def channel_meta_def varchar_fits Let_def list_ex_iff
        split: option.splits sum.splits if_splits)
  define f where "f = (\<lambda>r :: channel_row. if c_owner r = owner \<and> c_id r = ?i
      then r\<lparr>c_name := channel_Name ch, c_metadata := channel_meta (channel_Metadata ch)\<rparr> else r)"
  have s': "es_svc (es_serve pg_uuid auth token (ReqUpdateChannel ch) es) = ?s\<lparr>channels_tbl := map f (channels_tbl ?s)\<rparr>"
    unfolding es_serve_svc up f_def by simp
  have "channel_view (f r) = renamed ?i (channel_Name ch) (channel_meta (channel_Metadata ch)) (channel_view r)"
    if "r \<in> set (channels_tbl ?s)" for r
    using stream_wf_unique(2) [OF wf that h(1)] h by (auto simp: channel_view_def renamed_def f_def)
  note view = image_view [of "set (channels_tbl ?s)" channel_view f, OF this]
  show ?thesis
  proof (rule toldI)
    show "es_stream (es_serve pg_uuid auth token (ReqUpdateChannel ch) es) =
        es_stream es @ [updateChannelEvent ?i (channel_Name ch) (channel_Metadata ch)]"
      by (simp add: es_UpdateChannel_def up es_XAdd_def)
    show "view_of (es_svc (es_serve pg_uuid auth token (ReqUpdateChannel ch) es)) =
        fold apply_event [updateChannelEvent ?i (channel_Name ch) (channel_Metadata ch)] (view_of ?s)"
      unfolding s' by (simp add: view_of_def view)
    show "stream_wf (es_svc (es_serve pg_uuid auth token (ReqUpdateChannel ch) es))"
      unfolding s' by (rule stream_wf_map [OF wf, of _ "\<lambda>r. r" f]) (simp_all add: f_def)
  qed
qed

lemma told_UpdateKey:
  assumes wf: "stream_wf (es_svc es)"
  shows "told es (es_serve pg_uuid auth token (ReqUpdateKey i k) es)"
proof (rule toldI [of _ _ "[]"])
  let ?s = "es_svc es"
  obtain f where f: "\<And>r. t_id (f r) = t_id r \<and> t_owner (f r) = t_owner r \<and> thing_view (f r) = thing_view r"
    and up: "snd (UpdateKey pg_uuid auth token i k ?s) = ?s\<lparr>things_tbl := map f (things_tbl ?s)\<rparr>"
  proof (cases "snd (UpdateKey pg_uuid auth token i k ?s) = ?s")
    case True
    then show thesis
      using that [of "\<lambda>r. r"] by simp
  next
    case False
    then obtain j ow k' where "snd (UpdateKey pg_uuid auth token i k ?s) =
        ?s\<lparr>things_tbl := map (\<lambda>r. if t_owner r = ow \<and> t_id r = j then r\<lparr>t_key := k'\<rparr> else r) (things_tbl ?s)\<rparr>"
      by (auto simp: UpdateKey_def things_UpdateKey_def Let_def split: option.splits sum.splits if_splits)
    then show thesis
      by (rule that [rotated]) (simp add: thing_view_def)
  qed
  show "es_stream (es_serve pg_uuid auth token (ReqUpdateKey i k) es) = es_stream es @ []"
    by (simp add: es_UpdateKey_def split: prod.splits)
  show "view_of (es_svc (es_serve pg_uuid auth token (ReqUpdateKey i k) es)) = fold apply_event [] (view_of ?s)"
    unfolding es_serve_svc up by (simp add: view_of_def image_image f)
  show "stream_wf (es_svc (es_serve pg_uuid auth token (ReqUpdateKey i k) es))"
    unfolding es_serve_svc up using wf by (simp add: stream_wf_def comp_def f)
qed

lemma told_RemoveThing:
  assumes wf: "stream_wf (es_svc es)" and req: "told_request pg_uuid auth token (ReqRemoveThing i) (es_svc es)"
  shows "told es (es_serve pg_uuid auth token (ReqRemoveThing i) es)"
proof (cases "auth token")
  case None
  then show ?thesis
    by (intro told_quiet [OF wf]) (simp_all add: es_RemoveThing_def RemoveThing_def)
next
  case (Some owner)
  let ?s = "es_svc es"
  let ?s' = "es_svc (es_serve pg_uuid auth token (ReqRemoveThing i) es)"
  have own: "t_owner r = owner" if "r \<in> set (things_tbl ?s)" "t_id r = i" for r
    using req that Some by auto
  have cown: "co_owner x = owner" if "x \<in> set (conns_tbl ?s)" "co_thing x = i" for x
    using wf that own unfolding stream_wf_def by metis
  have cache: "things_tbl (thingCache_Remove i ?s) = things_tbl ?s" "channels_tbl (thingCache_Remove i ?s) = channels_tbl ?s"
    "conns_tbl (thingCache_Remove i ?s) = conns_tbl ?s"
    by (auto simp: thingCache_Remove_def split: option.splits)
  have tbls: "things_tbl ?s' = filter (\<lambda>r. t_id r \<noteq> i) (things_tbl ?s)" "channels_tbl ?s' = channels_tbl ?s"
    "conns_tbl ?s' = filter (\<lambda>r. co_thing r \<noteq> i) (conns_tbl ?s)"
    unfolding es_serve_svc using Some req own cown
    by (auto simp: RemoveThing_def things_Remove_def cache intro!: filter_cong)
  show ?thesis
  proof (rule toldI)
    show "es_stream (es_serve pg_uuid auth token (ReqRemoveThing i) es) = es_stream es @ [removeThingEvent i]"
      using Some by (simp add: es_RemoveThing_def RemoveThing_def es_XAdd_def)
    show "view_of ?s' = fold apply_event [removeThingEvent i] (view_of ?s)"
      unfolding view_of_def tbls by (simp add: filter_views del: set_filter)
    show "stream_wf ?s'"
      by (rule stream_wf_filter [OF wf, where P = "\<lambda>r. t_id r \<noteq> i" and Q = "\<lambda>_. True" and R = "\<lambda>r. co_thing r \<noteq> i"]) (unfold tbls, simp_all)
  qed
qed

lemma told_RemoveChannel:
  assumes wf: "stream_wf (es_svc es)" and req: "told_request pg_uuid auth token (ReqRemoveChannel i) (es_svc es)"
  shows "told es (es_serve pg_uuid auth token (ReqRemoveChannel i) es)"
proof (cases "auth token")
  case None
  then show ?thesis
    by (intro told_quiet [OF wf]) (simp_all add: es_RemoveChannel_def RemoveChannel_def)
next
  case (Some owner)
  let ?s = "es_svc es"
  let ?s' = "es_svc (es_serve pg_uuid auth token (ReqRemoveChannel i) es)"
  have own: "c_owner r = owner" if "r \<in> set (channels_tbl ?s)" "c_id r = i" for r
    using req that Some by auto
  have cown: "co_owner x = owner" if "x \<in> set (conns_tbl ?s)" "co_channel x = i" for x
    using wf that own unfolding stream_wf_def by metis
  have tbls: "things_tbl ?s' = things_tbl ?s" "channels_tbl ?s' = filter (\<lambda>r. c_id r \<noteq> i) (channels_tbl ?s)"
    "conns_tbl ?s' = filter (\<lambda>r. co_channel r \<noteq> i) (conns_tbl ?s)"
    unfolding es_serve_svc using Some req own cown
    by (auto simp: RemoveChannel_def channels_Remove_def channelCache_Remove_def intro!: filter_cong)
  show ?thesis
  proof (rule toldI)
    show "es_stream (es_serve pg_uuid auth token (ReqRemoveChannel i) es) = es_stream es @ [removeChannelEvent i]"
      using Some by (simp add: es_RemoveChannel_def RemoveChannel_def es_XAdd_def)
    show "view_of ?s' = fold apply_event [removeChannelEvent i] (view_of ?s)"
      unfolding view_of_def tbls by (simp add: filter_views del: set_filter)
    show "stream_wf ?s'"
      by (rule stream_wf_filter [OF wf, where P = "\<lambda>_. True" and Q = "\<lambda>r. c_id r \<noteq> i" and R = "\<lambda>r. co_channel r \<noteq> i"]) (unfold tbls, simp_all)
  qed
qed

subsection \<open>Connecting\<close>

lemma replay_connected:
  "fold apply_event (map (\<lambda>(c, t). connectThingEvent c t) cts) v = v\<lparr>v_conns := v_conns v \<union> set cts\<rparr>"
  by (induction cts arbitrary: v) auto

lemma conn_views:
  assumes "list_all2 (conn_for pg_uuid owner s) cts rows" "\<forall>(c, t)\<in>set cts. pg_uuid c = Some c \<and> pg_uuid t = Some t"
  shows "map conn_view rows = cts"
  using assms by (induction) (auto simp: conn_for_def conn_view_def)

lemma told_Connect:
  assumes wf: "stream_wf (es_svc es)" and req: "told_request pg_uuid auth token (ReqConnect chIDs thIDs) (es_svc es)"
  shows "told es (es_serve pg_uuid auth token (ReqConnect chIDs thIDs) es)"
proof (cases "fst (Connect pg_uuid auth token chIDs thIDs (es_svc es))")
  case (Some e)
  then show ?thesis
    by (intro told_quiet [OF wf]) (auto simp: es_Connect_def Connect_def Let_def split: option.splits sum.splits)
next
  case None
  let ?s = "es_svc es" and ?cts = "List.product chIDs thIDs"
  obtain owner tbl where *: "insert_connections pg_uuid owner ?s ?cts (conns_tbl ?s) = Inr tbl"
    "Connect pg_uuid auth token chIDs thIDs ?s = (None, ?s\<lparr>conns_tbl := tbl\<rparr>)"
    using None by (auto simp: Connect_def channels_Connect_def split: option.splits sum.splits)
  obtain rows where rows: "tbl = conns_tbl ?s @ rows" "list_all2 (conn_for pg_uuid owner ?s) ?cts rows"
    using insert_connections_rows [OF *(1)] by blast
  have "map conn_view rows = ?cts"
    using req by (intro conn_views [OF rows(2)]) auto
  then have view: "conn_view ` set rows = set ?cts"
    by (metis set_map)
  have fk: "(\<exists>c\<in>set (channels_tbl ?s). c_id c = co_channel r \<and> c_owner c = co_owner r) \<and>
      (\<exists>t\<in>set (things_tbl ?s). t_id t = co_thing r \<and> t_owner t = co_owner r)" if "r \<in> set rows" for r
    using rows(2) that by (auto simp: list_all2_conv_all_nth conn_for_def in_set_conv_nth)
  show ?thesis
  proof (rule toldI)
    show "es_stream (es_serve pg_uuid auth token (ReqConnect chIDs thIDs) es) = es_stream es @ map (\<lambda>(c, t). connectThingEvent c t) ?cts"
      by (simp add: es_Connect_def *(2) fold_fold_XAdd)
    show "view_of (es_svc (es_serve pg_uuid auth token (ReqConnect chIDs thIDs) es)) =
        fold apply_event (map (\<lambda>(c, t). connectThingEvent c t) ?cts) (view_of ?s)"
      unfolding es_serve_svc *(2) replay_connected view [symmetric] by (simp add: view_of_def rows(1) image_Un)
    show "stream_wf (es_svc (es_serve pg_uuid auth token (ReqConnect chIDs thIDs) es))"
      unfolding es_serve_svc *(2) using wf fk by (auto simp: stream_wf_def rows(1))
  qed
qed

lemma told_Disconnect:
  assumes wf: "stream_wf (es_svc es)" and req: "told_request pg_uuid auth token (ReqDisconnect c t) (es_svc es)"
  shows "told es (es_serve pg_uuid auth token (ReqDisconnect c t) es)"
proof (cases "fst (Disconnect pg_uuid auth token c t (es_svc es))")
  case (Some e)
  then show ?thesis
    by (intro told_quiet [OF wf]) (auto simp: es_Disconnect_def Disconnect_def channelCache_Disconnect_def Let_def
        split: option.splits sum.splits)
next
  case None
  let ?s = "es_svc es"
  let ?s' = "es_svc (es_serve pg_uuid auth token (ReqDisconnect c t) es)"
  obtain owner h where h: "h \<in> set (conns_tbl ?s)" "co_thing h = t" "co_owner h = owner"
    and tbls: "things_tbl ?s' = things_tbl ?s" "channels_tbl ?s' = channels_tbl ?s"
      "conns_tbl ?s' = filter (\<lambda>r. \<not> (co_channel r = c \<and> co_thing r = t \<and> co_owner r = owner)) (conns_tbl ?s)"
    using None req unfolding es_serve_svc
    by (auto simp: Disconnect_def channels_Disconnect_def channelCache_Disconnect_def Let_def list_ex_iff
        split: option.splits sum.splits if_splits)
  have own: "co_owner x = owner" if "x \<in> set (conns_tbl ?s)" "co_thing x = t" for x
    using wf that h stream_wf_owner(1) [OF wf] unfolding stream_wf_def by metis
  show ?thesis
  proof (rule toldI)
    show "es_stream (es_serve pg_uuid auth token (ReqDisconnect c t) es) = es_stream es @ [disconnectThingEvent c t]"
      using None by (auto simp: es_Disconnect_def es_XAdd_def Let_def split: prod.splits option.splits)
    show "view_of ?s' = fold apply_event [disconnectThingEvent c t] (view_of ?s)"
      unfolding view_of_def tbls using own by (auto simp: conn_view_def)
    show "stream_wf ?s'"
      by (rule stream_wf_filter [OF wf, where P = "\<lambda>_. True" and Q = "\<lambda>_. True", OF _ _ tbls(3)]) (unfold tbls, simp_all)
  qed
qed

subsection \<open>Replaying\<close>

lemma told_access:
  assumes "stream_wf (es_svc es)"
  shows "told es (es_serve pg_uuid auth token (ReqCanAccessByKey c k) es)"
    "told es (es_serve pg_uuid auth token (ReqCanAccessByID c t) es)"
    "told es (es_serve pg_uuid auth token (ReqIdentify k) es)"
  by (rule told_quiet [OF assms]; simp add: es_defs CanAccessByKey_def CanAccessByID_def Identify_def
      channelCache_Connect_def thingCache_Save_def split: option.splits prod.splits)+

lemma told_serve:
  assumes "stream_wf (es_svc es)" "told_request pg_uuid auth token req (es_svc es)"
  shows "told es (es_serve pg_uuid auth token req es)"
  using assms told_CreateThings told_CreateChannels told_UpdateThing told_UpdateChannel told_UpdateKey told_RemoveThing
    told_RemoveChannel told_Connect told_Disconnect told_access
  by (cases req) (simp_all del: es_serve.simps told_request.simps)

text \<open>A system whose steps are told by the entries that they add to its log: replaying the log gives the view of
  every state that is reached.\<close>

locale event_sourced =
  fixes step :: "'s \<Rightarrow> 's \<Rightarrow> bool" and entries :: "'s \<Rightarrow> 'e list" and view :: "'s \<Rightarrow> 'v" and replay :: "'e \<Rightarrow> 'v \<Rightarrow> 'v"
    and wf :: "'s \<Rightarrow> bool"
  assumes step_told: "step s s' \<Longrightarrow> wf s \<Longrightarrow>
    (\<exists>new. entries s' = entries s @ new \<and> view s' = fold replay new (view s)) \<and> wf s'"
begin

lemma steps_told:
  assumes "step\<^sup>*\<^sup>* s s'" "wf s"
  shows "(\<exists>new. entries s' = entries s @ new \<and> view s' = fold replay new (view s)) \<and> wf s'"
  using assms
proof (induction)
  case (step s1 s2)
  then show ?case
    using step_told [OF step(2)] by fastforce
qed simp

lemma view_replayed:
  assumes "step\<^sup>*\<^sup>* s s'" "wf s" "entries s = []"
  shows "view s' = fold replay (entries s') (view s)"
  using steps_told [OF assms(1,2)] assms(3) by auto

end

interpretation es: event_sourced "es_step pg_uuid auth" es_stream "\<lambda>es. view_of (es_svc es)" apply_event
  "\<lambda>es. stream_wf (es_svc es)" for pg_uuid auth
proof unfold_locales
  fix es es'
  assume "es_step pg_uuid auth es es'" "stream_wf (es_svc es)"
  then have "told es es'"
    by cases (auto intro: told_serve)
  then show "(\<exists>new. es_stream es' = es_stream es @ new \<and> view_of (es_svc es') = fold apply_event new (view_of (es_svc es))) \<and>
      stream_wf (es_svc es')"
    by (simp add: told_def)
qed

text \<open>
  C10. The stream tells the history: after any sequence of requests, replaying the events that the wrapper added
  on what the tables held at first gives exactly what the tables hold now: the things and channels with their
  owners, names and metadata, and the connections, also those that went with a removed thing or channel. The
  conditions on the requests are those of \<open>told_request\<close>.
\<close>

theorem events_replay:
  assumes "(es_step pg_uuid auth)\<^sup>*\<^sup>* es es'" and "stream_wf (es_svc es)" and "es_stream es = []"
  shows "view_of (es_svc es') = fold apply_event (es_stream es') (view_of (es_svc es))"
  using assms by (rule es.view_replayed)

text \<open>An empty service, and the requests that create a thing and a channel, connect them and remove the thing.\<close>

definition empty_store :: event_store where
  "empty_store = \<lparr> es_svc = \<lparr> things_tbl = [], channels_tbl = [], conns_tbl = [], redis_str = (\<lambda>_. None), redis_set = (\<lambda>_. {}) \<rparr>,
     es_stream = [] \<rparr>"

definition pump :: thing where
  "pump = \<lparr> thing_ID = [], thing_Owner = [], thing_Name = ''pump'', thing_Key = ''k1'', thing_Metadata = None \<rparr>"

definition pond :: channel where
  "pond = \<lparr> channel_ID = [], channel_Owner = [], channel_Name = ''pond'', channel_Metadata = None \<rparr>"

definition sample_store :: event_store where
  "sample_store = es_serve Some Some ''joe'' (ReqConnect [''c1''] [''t1''])
     (es_serve Some Some ''joe'' (ReqCreateChannels [pond] [''c1''])
       (es_serve Some Some ''joe'' (ReqCreateThings [pump] [''t1'']) empty_store))"

lemma sample_store_eq:
  "sample_store = \<lparr> es_svc = \<lparr>
      things_tbl = [\<lparr> t_id = ''t1'', t_owner = ''joe'', t_key = ''k1'', t_name = ''pump'', t_metadata = [] \<rparr>],
      channels_tbl = [\<lparr> c_id = ''c1'', c_owner = ''joe'', c_name = ''pond'', c_metadata = None \<rparr>],
      conns_tbl = [\<lparr> co_channel = ''c1'', co_thing = ''t1'', co_owner = ''joe'' \<rparr>],
      redis_str = (\<lambda>_. None), redis_set = (\<lambda>_. {}) \<rparr>,
    es_stream = [createThingEvent ''t1'' ''joe'' ''pump'' None, createChannelEvent ''c1'' ''joe'' ''pond'' None,
      connectThingEvent ''c1'' ''t1''] \<rparr>"
  by (simp add: sample_store_def empty_store_def pump_def pond_def es_defs CreateThings_def CreateChannels_def Connect_def
      stored_thing_def stored_channel_def toDBThing_def toDBChannel_def varchar_def channels_Connect_def insert_connection_def es_XAdd_def)

theorem events_replay_witness:
  "v_conns (fold apply_event (es_stream sample_store) (view_of (es_svc empty_store))) = {(''c1'', ''t1'')}"
proof -
  let ?a = "es_serve Some Some ''joe'' (ReqCreateThings [pump] [''t1'']) empty_store"
  let ?b = "es_serve Some Some ''joe'' (ReqCreateChannels [pond] [''c1'']) ?a"
  have "es_step Some Some empty_store ?a"
    by (rule es_step.serve) (simp add: empty_store_def pump_def)
  moreover have "es_step Some Some ?a ?b"
    by (rule es_step.serve) (simp add: empty_store_def pump_def pond_def es_defs CreateThings_def stored_thing_def toDBThing_def
        varchar_def es_XAdd_def)
  moreover have "es_step Some Some ?b sample_store"
    unfolding sample_store_def by (rule es_step.serve) simp
  ultimately have "(es_step Some Some)\<^sup>*\<^sup>* empty_store sample_store"
    by (meson converse_rtranclp_into_rtranclp rtranclp.rtrancl_refl)
  moreover have "stream_wf (es_svc empty_store)" "es_stream empty_store = []"
    by (simp_all add: stream_wf_def empty_store_def)
  ultimately show ?thesis
    using events_replay [of Some Some empty_store sample_store]
    by (simp add: sample_store_eq view_of_def conn_view_def del: es_serve.simps)
qed

theorem request_keeps_foreign_rows_witness:
  "rows_of ''joe'' (es_svc (es_serve Some Some ''eve'' (ReqRemoveThing ''t1'') sample_store)) = rows_of ''joe'' (es_svc sample_store)"
  by (rule request_keeps_foreign_rows) simp

end
