(* ===== verification/Bootstrap_Events.thy ===== *)
theory Bootstrap_Events
  imports Things_Events
begin

text \<open>
  The consumer of the things service's events in the bootstrap service
  (\<open>bootstrap/redis/consumer/streams.go\<close>), the handlers of \<open>bootstrap/service.go\<close> and the statements of
  \<open>bootstrap/postgres/configs.go\<close> that they run. The bootstrap service keeps a configuration for each thing
  that boots through it, the channels of these configurations and their connections.

  The database may refuse a statement. The handlers run one statement for an event, except that a removed
  configuration is followed by a second one that cleans up: whether the database executes the first is the
  parameter \<open>db_ok\<close>, whether it executes the second the parameter \<open>cl_ok\<close>. A stream is the sequence of all
  events, numbered from 0; a consumer group delivers each of them once. Only the consumer changes the
  tables here; the operations of the users of the bootstrap service are left out.
\<close>

section \<open>The code\<close>

subsection \<open>Tables\<close>

datatype State = Inactive | Active

record bs_config =
  mainflux_thing :: string
  bs_owner :: string
  bs_name :: string
  mainflux_key :: string
  external_id :: string
  external_key :: string
  bs_content :: string
  client_cert :: string
  client_key :: string
  ca_cert :: string
  bs_state :: State

record bs_channel =
  mainflux_channel :: string
  bch_owner :: string
  bch_name :: "string option"
  bch_metadata :: metadata

record bs_connection =
  channel_id :: string
  channel_owner :: string
  config_id :: string
  config_owner :: string

record bootstrap_db =
  bs_configs :: "bs_config list"
  bs_channels :: "bs_channel list"
  bs_connections :: "bs_connection list"

definition nullString :: "string \<Rightarrow> string option" where
  "nullString s = (if s = [] then None else Some s)"

text \<open>\<open>ON DELETE CASCADE\<close> of the connections on the deleted configurations and channels.\<close>

definition delete_configs :: "(bs_config \<Rightarrow> bool) \<Rightarrow> bootstrap_db \<Rightarrow> bootstrap_db" where
  "delete_configs p db =
     db\<lparr>bs_configs := filter (\<lambda>c. \<not> p c) (bs_configs db),
        bs_connections := filter (\<lambda>x. \<not> list_ex (\<lambda>c. p c \<and> config_id x = mainflux_thing c \<and> config_owner x = bs_owner c) (bs_configs db))
          (bs_connections db)\<rparr>"

definition delete_channels :: "(bs_channel \<Rightarrow> bool) \<Rightarrow> bootstrap_db \<Rightarrow> bootstrap_db" where
  "delete_channels p db =
     db\<lparr>bs_channels := filter (\<lambda>c. \<not> p c) (bs_channels db),
        bs_connections := filter (\<lambda>x. \<not> list_ex (\<lambda>c. p c \<and> channel_id x = mainflux_channel c \<and> channel_owner x = bch_owner c) (bs_channels db))
          (bs_connections db)\<rparr>"

text \<open>The query \<open>cleanupQuery\<close> deletes the channels without a connection.\<close>

definition cleanup :: "bootstrap_db \<Rightarrow> bootstrap_db" where
  "cleanup db = delete_channels (\<lambda>ch. \<not> list_ex (\<lambda>x. mainflux_channel ch = channel_id x) (bs_connections db)) db"

text \<open>One statement: whether the error is \<open>nil\<close>, and the tables after it.\<close>

definition db_exec :: "bool \<Rightarrow> (bootstrap_db \<Rightarrow> bootstrap_db) \<Rightarrow> bootstrap_db \<Rightarrow> bool \<times> bootstrap_db" where
  "db_exec ok stmt db = (ok, if ok then stmt db else db)"

text \<open>The cleanup runs also after a refused \<open>DELETE\<close>, and its own failure is only logged.\<close>

definition configs_RemoveThing :: "bool \<Rightarrow> bool \<Rightarrow> string \<Rightarrow> bootstrap_db \<Rightarrow> bool \<times> bootstrap_db" where
  "configs_RemoveThing ok cl ident db =
     (let (err_nil, db) = db_exec ok (delete_configs (\<lambda>c. mainflux_thing c = ident)) db;
          (_, db) = db_exec cl cleanup db
      in (err_nil, db))"

definition set_channel :: "string \<Rightarrow> string \<Rightarrow> metadata \<Rightarrow> bootstrap_db \<Rightarrow> bootstrap_db" where
  "set_channel ident name m db =
     db\<lparr>bs_channels := map (\<lambda>ch. if mainflux_channel ch = ident then ch\<lparr>bch_name := nullString name, bch_metadata := m\<rparr> else ch)
       (bs_channels db)\<rparr>"

definition configs_UpdateChannel :: "bool \<Rightarrow> string \<Rightarrow> string \<Rightarrow> metadata \<Rightarrow> bootstrap_db \<Rightarrow> bool \<times> bootstrap_db" where
  "configs_UpdateChannel ok ident name m db = db_exec ok (set_channel ident name m) db"

definition configs_RemoveChannel :: "bool \<Rightarrow> string \<Rightarrow> bootstrap_db \<Rightarrow> bool \<times> bootstrap_db" where
  "configs_RemoveChannel ok ident db = db_exec ok (delete_channels (\<lambda>ch. mainflux_channel ch = ident)) db"

text \<open>The condition of the \<open>UPDATE\<close> is a subquery that does not mention the row.\<close>

definition set_inactive :: "string \<Rightarrow> string \<Rightarrow> bootstrap_db \<Rightarrow> bootstrap_db" where
  "set_inactive chanID thingID db =
     (let exists = list_ex (\<lambda>x. config_id x = thingID \<and> channel_id x = chanID) (bs_connections db)
      in db\<lparr>bs_configs := map (\<lambda>c. if exists then c\<lparr>bs_state := Inactive\<rparr> else c) (bs_configs db)\<rparr>)"

definition configs_DisconnectThing :: "bool \<Rightarrow> string \<Rightarrow> string \<Rightarrow> bootstrap_db \<Rightarrow> bool \<times> bootstrap_db" where
  "configs_DisconnectThing ok chanID thingID db = db_exec ok (set_inactive chanID thingID) db"

subsection \<open>Events\<close>

text \<open>Reading a field of an event: the fields other than the metadata are plain texts.\<close>

definition read_text :: "ev_record \<Rightarrow> string \<Rightarrow> string \<Rightarrow> string" where
  "read_text event key d = (case event key of Some (Text s) \<Rightarrow> s | _ \<Rightarrow> d)"

definition read_metadata :: "ev_record \<Rightarrow> ev_value" where
  "read_metadata event = (case event ''metadata'' of Some v \<Rightarrow> v | None \<Rightarrow> JsonText [])"

text \<open>\<open>json.Unmarshal\<close> with a target that is not a pointer: an error, whatever the text is.\<close>

definition Unmarshal_value :: "ev_value \<Rightarrow> metadata option" where
  "Unmarshal_value v = None"

definition decodeUpdateChannel :: "ev_record \<Rightarrow> string \<times> string \<times> metadata" where
  "decodeUpdateChannel event =
     (let strmeta = read_metadata event;
          metadata = (case Unmarshal_value strmeta of None \<Rightarrow> [] | Some m \<Rightarrow> m)
      in (read_text event ''id'' [], read_text event ''name'' [], metadata))"

definition decodeRemove :: "ev_record \<Rightarrow> string" where
  "decodeRemove event = read_text event ''id'' []"

definition decodeDisconnectThing :: "ev_record \<Rightarrow> string \<times> string" where
  "decodeDisconnectThing event = (read_text event ''chan_id'' [], read_text event ''thing_id'' [])"

text \<open>The handlers: whether the error is \<open>nil\<close>, and the tables.\<close>

definition handle_event :: "bool \<Rightarrow> bool \<Rightarrow> ev_record \<Rightarrow> bootstrap_db \<Rightarrow> bool \<times> bootstrap_db" where
  "handle_event ok cl event db =
     (let operation = read_text event ''operation'' [] in
      if operation = ''thing.remove'' then configs_RemoveThing ok cl (decodeRemove event) db
      else if operation = ''thing.disconnect''
      then (let (chanID, thingID) = decodeDisconnectThing event in configs_DisconnectThing ok chanID thingID db)
      else if operation = ''channel.update''
      then (let (ident, name, metadata) = decodeUpdateChannel event in configs_UpdateChannel ok ident name metadata db)
      else if operation = ''channel.remove'' then configs_RemoveChannel ok (decodeRemove event) db
      else (True, db))"

subsection \<open>The consumer\<close>

record bs_consumer =
  bc_db :: bootstrap_db
  bc_next :: nat
  bc_acked :: "nat list"
  bc_warnings :: nat

text \<open>The loop over a batch: it is left at the first error. \<open>bc_acked\<close> are the events that \<open>XAck\<close> was called for.\<close>

fun consume :: "(nat \<Rightarrow> bool) \<Rightarrow> (nat \<Rightarrow> bool) \<Rightarrow> (nat \<times> ev_record) list \<Rightarrow> bs_consumer \<Rightarrow> bs_consumer" where
  "consume db_ok cl_ok [] cs = cs"
| "consume db_ok cl_ok ((ident, event) # msgs) cs =
     (let (err_nil, db) = handle_event (db_ok ident) (cl_ok ident) event (bc_db cs); cs = cs\<lparr>bc_db := db\<rparr> in
      if \<not> err_nil then cs\<lparr>bc_warnings := bc_warnings cs + 1\<rparr>
      else consume db_ok cl_ok msgs (cs\<lparr>bc_acked := bc_acked cs @ [ident]\<rparr>))"

text \<open>One round of the endless loop: up to a hundred of the events that were not delivered yet, when the stream
  has \<open>avail\<close> of them.\<close>

definition poll :: "(nat \<Rightarrow> bool) \<Rightarrow> (nat \<Rightarrow> bool) \<Rightarrow> (nat \<Rightarrow> ev_record) \<Rightarrow> nat \<Rightarrow> bs_consumer \<Rightarrow> bs_consumer" where
  "poll db_ok cl_ok stream avail cs =
     (let batch = map (\<lambda>i. (i, stream i)) [bc_next cs..<bc_next cs + min 100 (avail - bc_next cs)]
      in consume db_ok cl_ok batch (cs\<lparr>bc_next := bc_next cs + length batch\<rparr>))"

inductive con_step :: "(nat \<Rightarrow> ev_record) \<Rightarrow> bs_consumer \<Rightarrow> bs_consumer \<Rightarrow> bool" for stream where
  poll: "con_step stream cs (poll db_ok cl_ok stream avail cs)"

section \<open>What an event does\<close>

lemma decode_encode [simp]:
  "handle_event ok cl (Encode (removeThingEvent i)) db = configs_RemoveThing ok cl i db"
  "handle_event ok cl (Encode (disconnectThingEvent c t)) db = configs_DisconnectThing ok c t db"
  "handle_event ok cl (Encode (updateChannelEvent i n m)) db = configs_UpdateChannel ok i n [] db"
  "handle_event ok cl (Encode (removeChannelEvent i)) db = configs_RemoveChannel ok i db"
  "handle_event ok cl (Encode (createThingEvent i ow n m)) db = (True, db)"
  "handle_event ok cl (Encode (updateThingEvent i n m)) db = (True, db)"
  "handle_event ok cl (Encode (createChannelEvent i ow n m)) db = (True, db)"
  "handle_event ok cl (Encode (connectThingEvent c t)) db = (True, db)"
  by (simp_all add: handle_event_def read_text_def decodeRemove_def decodeDisconnectThing_def decodeUpdateChannel_def
      Unmarshal_value_def with_name_def with_metadata_def Let_def split: option.splits)

declare Encode.simps [simp del]

lemmas statement_defs = configs_RemoveThing_def configs_UpdateChannel_def configs_RemoveChannel_def configs_DisconnectThing_def db_exec_def

text \<open>The events with a handler; only they can fail.\<close>

definition handled :: "ev_record \<Rightarrow> bool" where
  "handled event \<longleftrightarrow> read_text event ''operation'' [] \<in> {''thing.remove'', ''thing.disconnect'', ''channel.update'', ''channel.remove''}"

lemma handle_event_succeeds: "fst (handle_event ok cl event db) \<longleftrightarrow> ok \<or> \<not> handled event"
  by (auto simp: handle_event_def handled_def statement_defs Let_def split: prod.splits)

text \<open>What the statements keep, the handlers keep, whichever of them the database executes.\<close>

lemma handle_event_keeps:
  assumes "P db" "\<And>p db. P db \<Longrightarrow> P (delete_configs p db)" "\<And>p db. P db \<Longrightarrow> P (delete_channels p db)"
    and "\<And>c t db. P db \<Longrightarrow> P (set_inactive c t db)" "\<And>i n m db. P db \<Longrightarrow> P (set_channel i n m db)"
  shows "P (snd (handle_event ok cl event db))"
  using assms by (auto simp: handle_event_def statement_defs cleanup_def Let_def split: prod.splits)

text \<open>
  C32. A stranger can delete a configuration: removing a thing of another user is answered without an error,
  although the service removes nothing, and its event makes the bootstrap service delete the configuration of
  that thing.
\<close>

theorem foreign_removal_deletes_config:
  assumes "r \<in> set (things_tbl (es_svc es))" "t_id r = i" and "auth token = Some eve" "eve \<noteq> t_owner r"
  shows "\<exists>es' ev. es_RemoveThing pg_uuid auth token i es = (None, es') \<and>
    rows_of (t_owner r) (es_svc es') = rows_of (t_owner r) (es_svc es) \<and> r \<in> set (things_tbl (es_svc es')) \<and>
    es_stream es' = es_stream es @ [ev] \<and>
    (\<forall>cl db. \<exists>db'. handle_event True cl (Encode ev) db = (True, db') \<and> (\<forall>c\<in>set (bs_configs db'). mainflux_thing c \<noteq> i))"
proof -
  let ?es = "es_XAdd (removeThingEvent i) (es\<lparr>es_svc := snd (RemoveThing pg_uuid auth token i (es_svc es))\<rparr>)"
  have "es_RemoveThing pg_uuid auth token i es = (None, ?es)"
    using assms(3) by (simp add: es_RemoveThing_def RemoveThing_def)
  moreover have rows: "rows_of (t_owner r) (es_svc ?es) = rows_of (t_owner r) (es_svc es)"
    using removals_foreign(1) [of auth token "t_owner r"] assms(3,4) by (simp add: es_XAdd_def)
  moreover have "r \<in> set (things_tbl (es_svc ?es))"
    using arg_cong [OF rows, of "\<lambda>p. r \<in> set (fst p)"] assms(1) by (simp add: rows_of_def)
  ultimately show ?thesis
    by (intro exI [of _ ?es] exI [of _ "removeThingEvent i"])
      (simp add: es_XAdd_def statement_defs cleanup_def delete_configs_def delete_channels_def)
qed

theorem foreign_removal_deletes_config_witness:
  "\<exists>es' ev. es_RemoveThing Some Some ''eve'' ''t1'' sample_store = (None, es') \<and> things_tbl (es_svc es') \<noteq> [] \<and>
     es_stream es' = es_stream sample_store @ [ev] \<and>
     (\<forall>cl db. \<exists>db'. handle_event True cl (Encode ev) db = (True, db') \<and> (\<forall>c\<in>set (bs_configs db'). mainflux_thing c \<noteq> ''t1''))"
proof -
  let ?r = "\<lparr> t_id = ''t1'', t_owner = ''joe'', t_key = ''k1'', t_name = ''pump'', t_metadata = [] \<rparr>"
  have "?r \<in> set (things_tbl (es_svc sample_store))" "t_id ?r = ''t1''" "Some ''eve'' = Some ''eve''" "''eve'' \<noteq> t_owner ?r"
    by (simp_all add: sample_store_eq)
  from foreign_removal_deletes_config [of ?r sample_store "''t1''" Some "''eve''" "''eve''" Some, OF this] show ?thesis
    by (metis empty_iff empty_set)
qed

text \<open>
  C33. Disconnecting one thing deactivates all: after a user has disconnected a thing from a channel, the event
  makes the bootstrap service, if it knows the connection, set every configuration of every user to inactive.
\<close>

theorem disconnect_deactivates_all:
  assumes "es_Disconnect pg_uuid auth token c t es = (None, es')"
    and "x \<in> set (bs_connections db)" "config_id x = t" "channel_id x = c"
  shows "\<exists>ev db'. es_stream es' = es_stream es @ [ev] \<and> handle_event True cl (Encode ev) db = (True, db') \<and>
    map mainflux_thing (bs_configs db') = map mainflux_thing (bs_configs db) \<and> (\<forall>cfg\<in>set (bs_configs db'). bs_state cfg = Inactive)"
proof (intro exI conjI)
  show "es_stream es' = es_stream es @ [disconnectThingEvent c t]"
    using assms(1) by (auto simp: es_Disconnect_def es_XAdd_def Let_def split: prod.splits option.splits)
  show "handle_event True cl (Encode (disconnectThingEvent c t)) db = (True, set_inactive c t db)"
    by (simp add: statement_defs)
  have "list_ex (\<lambda>x. config_id x = t \<and> channel_id x = c) (bs_connections db)"
    using assms(2-4) by (auto simp: list_ex_iff)
  then show "map mainflux_thing (bs_configs (set_inactive c t db)) = map mainflux_thing (bs_configs db)"
    "\<forall>cfg\<in>set (bs_configs (set_inactive c t db)). bs_state cfg = Inactive"
    by (simp_all add: set_inactive_def)
qed

text \<open>Two users with a configuration each; only the first one's thing is on the channel.\<close>

definition sample_bootstrap :: bootstrap_db where
  "sample_bootstrap = \<lparr>
     bs_configs = map (\<lambda>(t, ow, k). \<lparr> mainflux_thing = t, bs_owner = ow, bs_name = [], mainflux_key = k, external_id = t,
       external_key = k, bs_content = [], client_cert = [], client_key = [], ca_cert = [], bs_state = Active \<rparr>)
       [(''t1'', ''joe'', ''k1''), (''t2'', ''ann'', ''k2'')],
     bs_channels = [\<lparr> mainflux_channel = ''c1'', bch_owner = ''joe'', bch_name = Some ''pond'', bch_metadata = [(''depth'', JNum 3)] \<rparr>],
     bs_connections = [\<lparr> channel_id = ''c1'', channel_owner = ''joe'', config_id = ''t1'', config_owner = ''joe'' \<rparr>] \<rparr>"

theorem disconnect_deactivates_all_witness:
  "\<exists>ev db'. handle_event True True (Encode ev) sample_bootstrap = (True, db') \<and> map mainflux_thing (bs_configs db') = [''t1'', ''t2''] \<and>
     (\<forall>cfg\<in>set (bs_configs db'). bs_state cfg = Inactive)"
proof -
  have "fst (es_Disconnect Some Some ''joe'' ''c1'' ''t1'' sample_store) = None"
    by (simp add: es_Disconnect_def Disconnect_def channels_Disconnect_def channelCache_Disconnect_def sample_store_eq)
  then obtain es' where "es_Disconnect Some Some ''joe'' ''c1'' ''t1'' sample_store = (None, es')"
    by (metis prod.collapse)
  moreover have "\<lparr> channel_id = ''c1'', channel_owner = ''joe'', config_id = ''t1'', config_owner = ''joe'' \<rparr> \<in> set (bs_connections sample_bootstrap)"
    by (simp add: sample_bootstrap_def)
  ultimately have "\<exists>ev db'. es_stream es' = es_stream sample_store @ [ev] \<and> handle_event True True (Encode ev) sample_bootstrap = (True, db') \<and>
      map mainflux_thing (bs_configs db') = map mainflux_thing (bs_configs sample_bootstrap) \<and> (\<forall>cfg\<in>set (bs_configs db'). bs_state cfg = Inactive)"
    by (rule disconnect_deactivates_all) simp_all
  moreover have "map mainflux_thing (bs_configs sample_bootstrap) = [''t1'', ''t2'']"
    by (simp add: sample_bootstrap_def)
  ultimately show ?thesis
    by metis
qed



section \<open>The consumer\<close>

text \<open>The tables keep their keys and foreign keys.\<close>

definition bs_ok :: "bootstrap_db \<Rightarrow> bool" where
  "bs_ok db \<longleftrightarrow>
     distinct (map mainflux_thing (bs_configs db)) \<and> distinct (map mainflux_channel (bs_channels db)) \<and>
     (\<forall>x\<in>set (bs_connections db). \<exists>c\<in>set (bs_configs db). config_id x = mainflux_thing c \<and> config_owner x = bs_owner c) \<and>
     (\<forall>x\<in>set (bs_connections db). \<exists>ch\<in>set (bs_channels db). channel_id x = mainflux_channel ch \<and> channel_owner x = bch_owner ch)"

definition thing_ids :: "bootstrap_db \<Rightarrow> string set" where
  "thing_ids db = mainflux_thing ` set (bs_configs db)"

definition channel_ids :: "bootstrap_db \<Rightarrow> string set" where
  "channel_ids db = mainflux_channel ` set (bs_channels db)"

lemma delete_configs_ok:
  assumes "bs_ok db"
  shows "bs_ok (delete_configs p db)"
proof -
  have "\<exists>c\<in>set (bs_configs db). \<not> p c \<and> config_id x = mainflux_thing c \<and> config_owner x = bs_owner c"
    if "x \<in> set (bs_connections (delete_configs p db))" for x
    using assms that unfolding bs_ok_def by (fastforce simp: delete_configs_def list_ex_iff)
  with assms show ?thesis
    by (auto simp: bs_ok_def delete_configs_def distinct_map_filter Bex_def)
qed

lemma delete_channels_ok:
  assumes "bs_ok db"
  shows "bs_ok (delete_channels p db)"
proof -
  have "\<exists>c\<in>set (bs_channels db). \<not> p c \<and> channel_id x = mainflux_channel c \<and> channel_owner x = bch_owner c"
    if "x \<in> set (bs_connections (delete_channels p db))" for x
    using assms that unfolding bs_ok_def by (fastforce simp: delete_channels_def list_ex_iff)
  with assms show ?thesis
    by (auto simp: bs_ok_def delete_channels_def distinct_map_filter Bex_def)
qed

lemma updates_ok:
  assumes "bs_ok db"
  shows "bs_ok (set_channel i n m db)" "bs_ok (set_inactive c t db)"
proof -
  define f where "f = (\<lambda>ch :: bs_channel. if mainflux_channel ch = i then ch\<lparr>bch_name := nullString n, bch_metadata := m\<rparr> else ch)"
  have "mainflux_channel (f ch) = mainflux_channel ch" "bch_owner (f ch) = bch_owner ch" for ch
    by (simp_all add: f_def)
  then show "bs_ok (set_channel i n m db)"
    using assms by (simp add: bs_ok_def set_channel_def f_def [symmetric] comp_def)
  show "bs_ok (set_inactive c t db)"
    using assms by (simp add: bs_ok_def set_inactive_def comp_def)
qed

lemma handle_event_ok: "bs_ok db \<Longrightarrow> bs_ok (snd (handle_event ok cl event db))"
  by (rule handle_event_keeps [where P = bs_ok]) (simp_all add: delete_configs_ok delete_channels_ok updates_ok)

text \<open>No handler adds a configuration or a channel.\<close>

lemma deleted_ids:
  "thing_ids (delete_configs p db) \<subseteq> thing_ids db" "channel_ids (delete_configs p db) = channel_ids db"
  "thing_ids (delete_channels q db) = thing_ids db" "channel_ids (delete_channels q db) \<subseteq> channel_ids db"
  by (auto simp: thing_ids_def channel_ids_def delete_configs_def delete_channels_def)

lemma updated_ids:
  "thing_ids (set_inactive c t db) = thing_ids db" "channel_ids (set_inactive c t db) = channel_ids db"
  "thing_ids (set_channel i n m db) = thing_ids db" "channel_ids (set_channel i n m db) = channel_ids db"
proof -
  have "map mainflux_channel (bs_channels (set_channel i n m db)) = map mainflux_channel (bs_channels db)"
    by (simp add: set_channel_def)
  then show "channel_ids (set_channel i n m db) = channel_ids db"
    unfolding channel_ids_def by (metis set_map)
qed (simp_all add: thing_ids_def channel_ids_def set_inactive_def set_channel_def image_image)

lemma handle_event_ids:
  "thing_ids (snd (handle_event ok cl event db)) \<subseteq> thing_ids db \<and> channel_ids (snd (handle_event ok cl event db)) \<subseteq> channel_ids db"
  by (rule handle_event_keeps [where P = "\<lambda>db'. thing_ids db' \<subseteq> thing_ids db \<and> channel_ids db' \<subseteq> channel_ids db"])
    (use deleted_ids in \<open>simp_all add: updated_ids, blast+\<close>)

lemma removed_gone:
  "handle_event ok cl (Encode (removeThingEvent i)) db = (True, db') \<Longrightarrow> i \<notin> thing_ids db'"
  "handle_event ok cl (Encode (removeChannelEvent i)) db = (True, db') \<Longrightarrow> i \<notin> channel_ids db'"
  by (auto simp: statement_defs cleanup_def delete_configs_def delete_channels_def thing_ids_def channel_ids_def split: if_splits)

text \<open>What a consumer knows: the foreign keys hold, and what was removed by an acknowledged event is gone.\<close>

definition bs_follows :: "(nat \<Rightarrow> ev_record) \<Rightarrow> bs_consumer \<Rightarrow> bool" where
  "bs_follows stream cs \<longleftrightarrow> bs_ok (bc_db cs) \<and>
     (\<forall>j\<in>set (bc_acked cs). \<forall>i. (stream j = Encode (removeThingEvent i) \<longrightarrow> i \<notin> thing_ids (bc_db cs)) \<and>
       (stream j = Encode (removeChannelEvent i) \<longrightarrow> i \<notin> channel_ids (bc_db cs)))"

lemma consume_follows:
  "bs_follows stream cs \<Longrightarrow> \<forall>(j, ev)\<in>set msgs. ev = stream j \<Longrightarrow> bs_follows stream (consume db_ok cl_ok msgs cs)"
proof (induction msgs arbitrary: cs)
  case (Cons msg msgs)
  obtain j where msg: "msg = (j, stream j)"
    using Cons.prems(2) by (cases msg) auto
  obtain err_nil db where h: "handle_event (db_ok j) (cl_ok j) (stream j) (bc_db cs) = (err_nil, db)"
    by fastforce
  have "bs_ok db" "thing_ids db \<subseteq> thing_ids (bc_db cs)" "channel_ids db \<subseteq> channel_ids (bc_db cs)"
    using Cons.prems(1) handle_event_ok [of "bc_db cs" "db_ok j" "cl_ok j" "stream j"]
      handle_event_ids [of "db_ok j" "cl_ok j" "stream j" "bc_db cs"] by (simp_all add: h bs_follows_def)
  then have kept: "bs_follows stream (cs\<lparr>bc_db := db\<rparr>)" "bs_follows stream (cs\<lparr>bc_db := db, bc_warnings := w\<rparr>)" for w
    using Cons.prems(1) unfolding bs_follows_def by auto
  show ?case
  proof (cases err_nil)
    case False
    with kept(2) show ?thesis
      by (simp add: msg h)
  next
    case True
    with h removed_gone [of "db_ok j" "cl_ok j" _ "bc_db cs" db]
    have "bs_follows stream (cs\<lparr>bc_db := db, bc_acked := bc_acked cs @ [j]\<rparr>)"
      using kept(1) by (auto simp: bs_follows_def)
    with Cons.IH Cons.prems(2) True show ?thesis
      by (simp add: msg h)
  qed
qed simp

lemma consumer_follows:
  assumes "(con_step stream)\<^sup>*\<^sup>* cs cs'" "bs_follows stream cs"
  shows "bs_follows stream cs'"
  using assms
proof (induction)
  case (step cs1 cs2)
  then obtain db_ok cl_ok avail where "cs2 = poll db_ok cl_ok stream avail cs1"
    by (auto elim: con_step.cases)
  moreover have "bs_follows stream (cs1\<lparr>bc_next := n\<rparr>)" for n
    using step by (simp add: bs_follows_def)
  ultimately show ?case
    by (auto simp: poll_def Let_def intro!: consume_follows)
qed

text \<open>
  C23. The bootstrap service follows the removals: in every state that its consumer reaches, whichever of its statements
  the database refuses, the second one of a removal included, the keys and foreign keys of its tables hold, and for every
  removal that was acknowledged no configuration or channel, and no connection of it, is left. (Users, who can add
  configurations, are not part of this.)
\<close>

theorem consumer_removals:
  assumes "(con_step stream)\<^sup>*\<^sup>* cs cs'" and "bs_ok (bc_db cs)" "bc_acked cs = []" and "j \<in> set (bc_acked cs')"
  shows "bs_ok (bc_db cs') \<and>
    (stream j = Encode (removeThingEvent i) \<longrightarrow> i \<notin> thing_ids (bc_db cs') \<and> i \<notin> config_id ` set (bs_connections (bc_db cs'))) \<and>
    (stream j = Encode (removeChannelEvent i) \<longrightarrow> i \<notin> channel_ids (bc_db cs') \<and> i \<notin> channel_id ` set (bs_connections (bc_db cs')))"
proof -
  have ok: "bs_follows stream cs'"
    using assms by (intro consumer_follows [OF assms(1)]) (simp add: bs_follows_def)
  have "config_id ` set (bs_connections (bc_db cs')) \<subseteq> thing_ids (bc_db cs')"
    "channel_id ` set (bs_connections (bc_db cs')) \<subseteq> channel_ids (bc_db cs')"
    using ok unfolding bs_follows_def bs_ok_def thing_ids_def channel_ids_def by blast+
  with ok assms(4) show ?thesis
    unfolding bs_follows_def by blast
qed

text \<open>What is acknowledged: the events of a batch up to the first that fails, in their order.\<close>

lemma consume_acked:
  "bc_acked (consume db_ok cl_ok msgs cs) = bc_acked cs @ map fst (takeWhile (\<lambda>(j, ev). db_ok j \<or> \<not> handled ev) msgs) \<and>
   bc_next (consume db_ok cl_ok msgs cs) = bc_next cs"
proof (induction msgs arbitrary: cs)
  case (Cons msg msgs)
  obtain j ev where msg: "msg = (j, ev)"
    by (cases msg)
  show ?case
    using Cons handle_event_succeeds [of "db_ok j" "cl_ok j" ev "bc_db cs"]
    by (cases "handle_event (db_ok j) (cl_ok j) ev (bc_db cs)") (simp add: msg)
qed simp

lemma poll_acked:
  "bc_acked (poll db_ok cl_ok stream avail cs) = bc_acked cs @ takeWhile (\<lambda>j. db_ok j \<or> \<not> handled (stream j)) [bc_next cs..<bc_next (poll db_ok cl_ok stream avail cs)] \<and>
   bc_next cs \<le> bc_next (poll db_ok cl_ok stream avail cs) \<and> bc_next (poll db_ok cl_ok stream avail cs) \<le> bc_next cs + 100"
  by (simp add: poll_def Let_def consume_acked takeWhile_map comp_def)

lemma poll_acked_set:
  "set (bc_acked (poll db_ok cl_ok stream avail cs)) \<subseteq> set (bc_acked cs) \<union> {bc_next cs..<bc_next (poll db_ok cl_ok stream avail cs)}"
  using poll_acked [of db_ok cl_ok stream avail cs] by (auto dest: set_takeWhileD)

lemma con_steps_acked:
  assumes "(con_step stream)\<^sup>*\<^sup>* cs cs'"
  shows "set (bc_acked cs') \<subseteq> set (bc_acked cs) \<union> {bc_next cs..<bc_next cs'} \<and> bc_next cs \<le> bc_next cs'"
  using assms
proof (induction)
  case (step cs1 cs2)
  then obtain db_ok cl_ok avail where cs2: "cs2 = poll db_ok cl_ok stream avail cs1"
    by (auto elim: con_step.cases)
  have "set (bc_acked cs2) \<subseteq> set (bc_acked cs1) \<union> {bc_next cs1..<bc_next cs2}" "bc_next cs1 \<le> bc_next cs2"
    using poll_acked_set [of db_ok cl_ok stream avail cs1] poll_acked [of db_ok cl_ok stream avail cs1] by (simp_all add: cs2)
  then have "set (bc_acked cs2) \<subseteq> set (bc_acked cs) \<union> {bc_next cs..<bc_next cs1} \<union> {bc_next cs1..<bc_next cs2}"
    using step.IH by blast
  also have "\<dots> = set (bc_acked cs) \<union> {bc_next cs..<bc_next cs2}"
    using step.IH \<open>bc_next cs1 \<le> bc_next cs2\<close> by (simp add: ivl_disj_un Un_assoc)
  finally show ?case
    using step.IH \<open>bc_next cs1 \<le> bc_next cs2\<close> by simp
qed simp

text \<open>
  C34. A failure loses the rest of its batch: if the database refuses the statement for one event, neither this event
  nor any later one of the same batch is ever acknowledged as handled, because the loop is left and the group does not deliver them
  again.
\<close>

theorem failed_batch_is_lost:
  assumes "(con_step stream)\<^sup>*\<^sup>* cs0 cs" "bc_acked cs0 = []"
    and "cs1 = poll db_ok cl_ok stream avail cs" and "bc_next cs \<le> i" "i \<le> j" "j < bc_next cs1" and "handled (stream i)" "\<not> db_ok i"
    and "(con_step stream)\<^sup>*\<^sup>* cs1 cs2"
  shows "j \<notin> set (bc_acked cs2)"
proof
  assume "j \<in> set (bc_acked cs2)"
  then have "j \<in> set (bc_acked cs1)"
    using con_steps_acked [OF assms(9)] assms(6) by fastforce
  moreover have "j \<notin> set (bc_acked cs)"
    using con_steps_acked [OF assms(1)] assms(2,4,5) by fastforce
  ultimately have j: "j \<in> set (takeWhile (\<lambda>j. db_ok j \<or> \<not> handled (stream j)) [bc_next cs..<bc_next cs1])"
    using poll_acked [of db_ok cl_ok stream avail cs] by (auto simp: assms(3))
  have split: "[bc_next cs..<bc_next cs1] = [bc_next cs..<i] @ i # [Suc i..<bc_next cs1]"
    using assms(4-6) upt_add_eq_append [of "bc_next cs" i "bc_next cs1 - i"] by (simp add: upt_conv_Cons)
  have "set (takeWhile P (xs @ y # ys)) \<subseteq> set xs" if "\<not> P y" for P xs ys and y :: nat
    using that by (induction xs) auto
  from this [of "\<lambda>j. db_ok j \<or> \<not> handled (stream j)" i "[bc_next cs..<i]" "[Suc i..<bc_next cs1]"] j assms(5,7,8) show False
    by (auto simp: split)
qed

definition sample_consumer :: bs_consumer where
  "sample_consumer = \<lparr> bc_db = sample_bootstrap, bc_next = 0, bc_acked = [], bc_warnings = 0 \<rparr>"

theorem consumer_removals_witness:
  "(let cs = poll (\<lambda>_. True) (\<lambda>_. False) (\<lambda>_. Encode (removeThingEvent ''t1'')) 1 sample_consumer in
     bs_ok (bc_db cs) \<and> ''t1'' \<notin> thing_ids (bc_db cs) \<and> ''t1'' \<notin> config_id ` set (bs_connections (bc_db cs)))"
proof -
  let ?cs = "poll (\<lambda>_. True) (\<lambda>_. False) (\<lambda>_. Encode (removeThingEvent ''t1'')) 1 sample_consumer"
  have "(con_step (\<lambda>_. Encode (removeThingEvent ''t1'')))\<^sup>*\<^sup>* sample_consumer ?cs"
    by (rule r_into_rtranclp, rule con_step.poll)
  moreover have "bs_ok (bc_db sample_consumer)" "bc_acked sample_consumer = []"
    by (simp_all add: bs_ok_def sample_consumer_def sample_bootstrap_def)
  moreover have "0 \<in> set (bc_acked ?cs)"
    by (simp add: poll_def sample_consumer_def statement_defs)
  ultimately show ?thesis
    using consumer_removals [of "\<lambda>_. Encode (removeThingEvent ''t1'')" sample_consumer ?cs 0 "''t1''"] by simp
qed

theorem failed_batch_is_lost_witness:
  "1 \<notin> set (bc_acked (poll (\<lambda>j. j \<noteq> 0) (\<lambda>_. True) (\<lambda>_. Encode (removeThingEvent ''t1'')) 2 sample_consumer))"
  by (rule failed_batch_is_lost [where cs = sample_consumer and i = 0 and db_ok = "\<lambda>j. j \<noteq> 0" and cl_ok = "\<lambda>_. True" and avail = 2,
        OF rtranclp.rtrancl_refl _ refl _ _ _ _ _ rtranclp.rtrancl_refl])
    (simp_all add: sample_consumer_def poll_def Let_def consume_acked handled_def Encode.simps read_text_def del: consume.simps)

end
