(* ===== verification/Topic_Filters.thy ===== *)
theory Topic_Filters
  imports Mqtt_Topics
begin

text \<open>
  What a subscription can receive. The broker delivers by the rule of MQTT 3.1.1 (section 4.7) for
  topic filters with the wildcards \<open>+\<close> and \<open>#\<close>; the rule is the specification that the deliveries
  of the broker are measured against. The lemmas show that a filter whose channel, as
  \<open>parseTopic\<close> finds it, has no wildcard and no slash can only match topics of that channel.
\<close>

fun filter_matches :: "string list \<Rightarrow> string list \<Rightarrow> bool" where
  "filter_matches [] ts = (ts = [])"
| "filter_matches (f # fs) ts =
     (if f = ''#'' then fs = []
      else (case ts of [] \<Rightarrow> False | t # ts \<Rightarrow> (f = ''+'' \<or> f = t) \<and> filter_matches fs ts))"

definition mqtt_matches :: "string \<Rightarrow> string \<Rightarrow> bool" where
  "mqtt_matches f t = filter_matches (js_split CHR ''/'' f) (js_split CHR ''/'' t)"

text \<open>The texts that PostgreSQL reads as a UUID: hexadecimal digits, hyphens and braces.\<close>

definition uuid_text :: "string \<Rightarrow> bool" where
  "uuid_text s \<longleftrightarrow> s \<noteq> [] \<and> list_all (\<lambda>c. hex_val c \<noteq> None \<or> c \<in> {CHR ''-'', CHR ''{'', CHR ''}''}) s"

lemma uuid_text_chars:
  assumes "uuid_text s"
  shows "CHR ''/'' \<notin> set s" "CHR ''+'' \<notin> set s" "CHR ''#'' \<notin> set s" "CHR ''.'' \<notin> set s"
    "CHR ''*'' \<notin> set s" "CHR ''>'' \<notin> set s"
  using assms by (auto simp: uuid_text_def list_all_iff hex_val_def Let_def)

lemma js_split_topic:
  assumes "CHR ''/'' \<notin> set c"
  shows "js_split CHR ''/'' (''channels/'' @ c @ CHR ''/'' # r) = ''channels'' # c # js_split CHR ''/'' r"
proof -
  have "''channels/'' @ c @ CHR ''/'' # r = ''channels'' @ CHR ''/'' # (c @ CHR ''/'' # r)"
    by simp
  then show ?thesis
    using assms by (simp only: js_split_append_sep) simp
qed

lemma topic_channel_split:
  assumes "topic_channel f = Some c" and "CHR ''/'' \<notin> set c"
  shows "\<exists>r. js_split CHR ''/'' f = ''channels'' # c # r \<and> r \<noteq> []"
proof -
  obtain r where "f = ''channels/'' @ c @ CHR ''/'' # r"
    using topic_channel_Some(3) [OF assms(1)] by (auto simp: prefix_def)
  then show ?thesis
    using js_split_topic [OF assms(2), of r] by auto
qed

lemma filter_matches_channel:
  assumes "topic_channel f = Some c" and "CHR ''/'' \<notin> set c" "CHR ''+'' \<notin> set c" "CHR ''#'' \<notin> set c"
    and "mqtt_matches f t"
  shows "\<exists>r. js_split CHR ''/'' t = ''channels'' # c # r"
proof -
  obtain r where r: "js_split CHR ''/'' f = ''channels'' # c # r"
    using topic_channel_split [OF assms(1,2)] by blast
  have "c \<noteq> ''+''" "c \<noteq> ''#''"
    using assms(3,4) by auto
  then show ?thesis
    using assms(5) by (auto simp: mqtt_matches_def r split: list.splits)
qed

lemma mqtt_topic_split:
  assumes "CHR ''/'' \<notin> set (m_channel m)"
  shows "\<exists>r. js_split CHR ''/'' (mqtt_topic m) = ''channels'' # m_channel m # r"
  unfolding mqtt_topic_def Let_def
  using js_split_topic [OF assms] by auto

text \<open>A packet made from a NATS message reaches a filter of a channel only if it is a message of
  that channel.\<close>

lemma delivered_channel:
  assumes "nats_message m = Some p" "CHR ''/'' \<notin> set (m_channel m)" and "topic_channel f = Some c" "uuid_text c"
    and "mqtt_matches f (p_topic p)"
  shows "m_channel m = c"
proof -
  have "p_topic p = mqtt_topic m"
    using assms(1) by (auto simp: nats_message_def split: if_splits)
  then show ?thesis
    using mqtt_topic_split [OF assms(2)] filter_matches_channel [OF assms(3) _ _ _ assms(5)] uuid_text_chars [OF assms(4)]
    by auto
qed

end
