(* ===== verification/Http_Adapter.thy ===== *)
theory Http_Adapter
  imports Things_Cache Topic_Filters
begin

text \<open>
  The HTTP adapter (\<open>http/api/transport.go\<close>, \<open>http/adapter.go\<close>, \<open>http/nats/publisher.go\<close>): a \<open>POST\<close> to
  the messages of a channel is authorised by the same call as an MQTT packet and published to NATS under
  the subject of its channel and subtopic. The parser of subtopics is also that of the WebSocket
  adapter (\<open>ws/api/transport.go\<close>).

  The path segment that the router \<open>bone\<close> finds for \<open>:id\<close> is a field of the request, the things service is
  the parameter \<open>can_access\<close>, the encoder of messages the parameter \<open>marshal\<close>, which may fail, and whether the
  connection to NATS takes a message the parameter \<open>nc\<close>. Go's \<open>strings.Split\<close>, \<open>Join\<close>, \<open>Replace\<close> and \<open>Contains\<close>
  agree with the functions of JavaScript on texts of bytes.
\<close>

section \<open>The code\<close>

text \<open>The errors that reach \<open>encodeError\<close>: the two of the decoder, those of the gRPC client, which carry a status,
  and those of the publisher, which carry none.\<close>

datatype http_error = errMalformedData | errMalformedSubtopic | GrpcError grpc_status | MarshalError | NatsError

record publish_request =
  h_uri :: string
  h_chan :: string
  h_authorization :: string
  h_contentType :: string
  h_body :: "string option"

subsection \<open>Parsing\<close>

text \<open>\<open>url.QueryUnescape\<close>.\<close>

fun QueryUnescape :: "string \<Rightarrow> string option" where
  "QueryUnescape [] = Some []"
| "QueryUnescape (c # cs) =
     (if c = CHR ''%''
      then (case cs of
              a # b # cs \<Rightarrow>
                (case (hex_val a, hex_val b) of
                   (Some i, Some j) \<Rightarrow> map_option (Cons (char_of (16 * i + j))) (QueryUnescape cs)
                 | _ \<Rightarrow> None)
            | _ \<Rightarrow> None)
      else map_option (Cons (if c = CHR ''+'' then CHR '' '' else c)) (QueryUnescape cs))"

text \<open>The loop over the elements.\<close>

fun filter_elems :: "string list \<Rightarrow> string list option" where
  "filter_elems [] = Some []"
| "filter_elems (elem # elems) =
     (if elem = [] then filter_elems elems
      else if 1 < length elem \<and> (js_includes elem CHR ''*'' \<or> js_includes elem CHR ''>'') then None
      else map_option (Cons elem) (filter_elems elems))"

definition parseSubtopic :: "string \<Rightarrow> http_error + string" where
  "parseSubtopic subtopic =
     (if subtopic = [] then Inr subtopic
      else
        (case QueryUnescape subtopic of
           None \<Rightarrow> Inl errMalformedSubtopic
         | Some subtopic \<Rightarrow>
             (let subtopic = js_replace_all CHR ''/'' CHR ''.'' subtopic;
                  elems = js_split CHR ''.'' subtopic
              in case filter_elems elems of
                   None \<Rightarrow> Inl errMalformedSubtopic
                 | Some filteredElems \<Rightarrow> Inr (js_join CHR ''.'' filteredElems))))"

text \<open>\<open>channelPartRegExp\<close>, that is \<open>^/channels/([\w\-]+)/messages(/[^?]*)?(\?.*)?$\<close>: the two groups. The class of
  the first group has no slash, so its match is the longest one.\<close>

definition word_char :: "char \<Rightarrow> bool" where
  "word_char c \<longleftrightarrow>
     (let n = of_char c :: nat in 48 \<le> n \<and> n \<le> 57 \<or> 65 \<le> n \<and> n \<le> 90 \<or> 97 \<le> n \<and> n \<le> 122 \<or> c = CHR ''_'' \<or> c = CHR ''-'')"

definition channelParts :: "string \<Rightarrow> (string \<times> string) option" where
  "channelParts uri =
     (let chan = takeWhile word_char (drop 10 uri);
          rest = drop (10 + length chan) uri
      in if take 10 uri = ''/channels/'' \<and> chan \<noteq> [] \<and> take 9 rest = ''/messages''
         then (let rest = drop 9 rest;
                   subtopic = (if take 1 rest = ''/'' then takeWhile (\<lambda>c. c \<noteq> CHR ''?'') rest else []);
                   query = drop (length subtopic) rest
               in if query = [] \<or> hd query = CHR ''?'' \<and> char_of (10 :: nat) \<notin> set query
                  then Some (chan, subtopic) else None)
         else None)"

definition decodeRequest :: "publish_request \<Rightarrow> http_error + message \<times> string" where
  "decodeRequest r =
     (case channelParts (h_uri r) of
        None \<Rightarrow> Inl errMalformedData
      | Some (_, sub) \<Rightarrow>
          (case parseSubtopic sub of
             Inl e \<Rightarrow> Inl e
           | Inr subtopic \<Rightarrow>
               (case h_body r of
                  None \<Rightarrow> Inl errMalformedData
                | Some payload \<Rightarrow>
                    Inr (\<lparr> m_channel = h_chan r, m_topic = [], m_subtopic = subtopic, m_publisher = [], m_devname = [],
                           m_protocol = ''http'', m_contentType = h_contentType r, m_payload = payload \<rparr>, h_authorization r))))"

subsection \<open>Publishing\<close>

definition nats_subject :: "message \<Rightarrow> string" where
  "nats_subject msg =
     (let subject = ''channel'' @ ''.'' @ m_channel msg
      in if m_subtopic msg \<noteq> [] then subject @ ''.'' @ m_subtopic msg else subject)"

text \<open>\<open>Publish\<close> of the NATS publisher: the error, or what went to NATS.\<close>

definition nats_Publish ::
  "(message \<Rightarrow> string option) \<Rightarrow> (string \<Rightarrow> string \<Rightarrow> bool) \<Rightarrow> message \<Rightarrow> http_error + string \<times> string" where
  "nats_Publish marshal nc msg =
     (case marshal msg of
        None \<Rightarrow> Inl MarshalError
      | Some data \<Rightarrow>
          (let subject = nats_subject msg
           in if nc subject data then Inr (subject, data) else Inl NatsError))"

definition adapter_Publish ::
  "(string \<Rightarrow> string \<Rightarrow> 's \<Rightarrow> (grpc_status + string) \<times> 's) \<Rightarrow> (message \<Rightarrow> string option) \<Rightarrow> (string \<Rightarrow> string \<Rightarrow> bool) \<Rightarrow>
   string \<Rightarrow> message \<Rightarrow> 's \<Rightarrow> (http_error + string \<times> string) \<times> 's" where
  "adapter_Publish can_access marshal nc token msg s =
     (let (r, s) = can_access token (m_channel msg) s in
      case r of
        Inl e \<Rightarrow> (Inl (GrpcError e), s)
      | Inr thid \<Rightarrow> (nats_Publish marshal nc (msg\<lparr>m_publisher := thid\<rparr>), s))"

definition http_encodeError :: "http_error \<Rightarrow> nat" where
  "http_encodeError e =
     (case e of
        errMalformedData \<Rightarrow> 400
      | errMalformedSubtopic \<Rightarrow> 400
      | GrpcError PermissionDenied \<Rightarrow> 403
      | GrpcError _ \<Rightarrow> 503
      | _ \<Rightarrow> 500)"

text \<open>The answer to a \<open>POST\<close> and what is published to NATS.\<close>

definition http_post ::
  "(string \<Rightarrow> string \<Rightarrow> 's \<Rightarrow> (grpc_status + string) \<times> 's) \<Rightarrow> (message \<Rightarrow> string option) \<Rightarrow> (string \<Rightarrow> string \<Rightarrow> bool) \<Rightarrow>
   publish_request \<Rightarrow> 's \<Rightarrow> (nat \<times> (string \<times> string) option) \<times> 's" where
  "http_post can_access marshal nc r s =
     (case decodeRequest r of
        Inl e \<Rightarrow> ((http_encodeError e, None), s)
      | Inr (msg, token) \<Rightarrow>
          (let (res, s) = adapter_Publish can_access marshal nc token msg s in
           case res of
             Inl e \<Rightarrow> ((http_encodeError e, None), s)
           | Inr published \<Rightarrow> ((202, Some published), s)))"

section \<open>Subtopics\<close>

lemma filter_elems_eq:
  "filter_elems es = (if invalid_subtopic (filter (\<lambda>e. e \<noteq> []) es) then None else Some (filter (\<lambda>e. e \<noteq> []) es))"
  by (induction es) auto

lemma replace_all_eq_join: "js_replace_all a b s = js_join b (js_split a s)"
  using js_replace_all_join [of "js_split a s" a b] js_split_parts [of _ a s] by simp

lemma message_subtopic_elements:
  assumes "CHR ''/'' \<notin> set c" "u = [] \<or> hd u = CHR ''/''"
  shows "subtopic_elements (''channels/'' @ c @ ''/messages'' @ u) =
    filter (\<lambda>e. e \<noteq> []) (js_split CHR ''.'' (js_replace_all CHR ''/'' CHR ''.'' u))"
proof (cases u)
  case Nil
  then show ?thesis
    using js_split_topic [OF assms(1), of "''messages''"] by (simp add: subtopic_elements_def js_replace_all_def)
next
  case (Cons x v)
  with assms(2) have u: "u = CHR ''/'' # v"
    by simp
  have "js_split CHR ''/'' (''channels/'' @ c @ ''/messages'' @ u) = ''channels'' # c # js_split CHR ''/'' (''messages'' @ CHR ''/'' # v)"
    using js_split_topic [OF assms(1), of "''messages'' @ u"] by (simp add: u)
  also have "\<dots> = ''channels'' # c # ''messages'' # js_split CHR ''/'' v"
    by (simp only: js_split_append_sep) simp
  finally have "drop 3 (js_split CHR ''/'' (''channels/'' @ c @ ''/messages'' @ u)) = js_split CHR ''/'' v"
    by simp
  then have "subtopic_elements (''channels/'' @ c @ ''/messages'' @ u) =
      filter (\<lambda>e. e \<noteq> []) (js_split CHR ''.'' (js_replace_all CHR ''/'' CHR ''.'' v))"
    by (simp add: subtopic_elements_def replace_all_eq_join)
  moreover have "js_split CHR ''.'' (js_replace_all CHR ''/'' CHR ''.'' u) = [] # js_split CHR ''.'' (js_replace_all CHR ''/'' CHR ''.'' v)"
    using js_split_append_sep [of "CHR ''.''" "[]" "js_replace_all CHR ''/'' CHR ''.'' v"] by (simp add: u js_replace_all_def)
  ultimately show ?thesis
    by simp
qed

lemma word_char_simps:
  assumes "word_char c"
  shows "c \<noteq> CHR ''/''" "\<not> line_terminator c"
  using assms by (auto simp: word_char_def line_terminator_def Let_def)

lemma channelParts_Some:
  assumes "channelParts uri = Some (c, sub)"
  shows "c \<noteq> []" "CHR ''/'' \<notin> set c" "one_line c" "sub = [] \<or> hd sub = CHR ''/''"
proof -
  have c: "c = takeWhile word_char (drop 10 uri)" "c \<noteq> []"
    using assms by (auto simp: channelParts_def Let_def split: if_splits)
  then have "\<forall>x\<in>set c. word_char x"
    by (auto dest: set_takeWhileD)
  then show "c \<noteq> []" "CHR ''/'' \<notin> set c" "one_line c"
    using c(2) word_char_simps by (auto simp: one_line_def list_all_iff)
  have "hd (takeWhile (\<lambda>c. c \<noteq> CHR ''?'') t) = CHR ''/''" if "take 1 t = ''/''" for t
    using that by (cases t) auto
  then show "sub = [] \<or> hd sub = CHR ''/''"
    using assms unfolding channelParts_def Let_def by (fastforce split: if_splits)
qed

lemma QueryUnescape_slash:
  assumes "QueryUnescape sub = Some u" "sub = [] \<or> hd sub = CHR ''/''"
  shows "u = [] \<or> hd u = CHR ''/''"
  using assms by (cases sub) auto

lemma parseSubtopic_eq:
  assumes "QueryUnescape sub = Some u"
  shows "parseSubtopic sub =
    (let es = filter (\<lambda>e. e \<noteq> []) (js_split CHR ''.'' (js_replace_all CHR ''/'' CHR ''.'' u))
     in if invalid_subtopic es then Inl errMalformedSubtopic else Inr (js_join CHR ''.'' es))"
proof (cases "sub = []")
  case True
  with assms show ?thesis
    by (simp add: parseSubtopic_def js_replace_all_def)
qed (simp add: parseSubtopic_def assms filter_elems_eq Let_def)

text \<open>
  C12. HTTP and MQTT agree on the subject: the subject that the HTTP adapter gives to a message for a path is the one
  that the MQTT adapter gives to a message for the same topic, and a subtopic that one of them refuses is refused by the
  other. This holds for every path whose unescaped text is one line without \<open>/control\<close> and without a
  content type at its end, which only MQTT reads from the topic.
\<close>

theorem http_subject_agrees:
  assumes "channelParts uri = Some (c, sub)" and "QueryUnescape sub = Some u" and "one_line u" "\<not> sublist ''/control'' u"
    and "topic = ''channels/'' @ c @ ''/messages'' @ u"
    and "split_content_type (subtopic_elements topic) = ([], subtopic_elements topic)"
  shows "case parseSubtopic sub of
      Inl e \<Rightarrow> e = errMalformedSubtopic \<and> publish_plan topic = Inl InvalidSubtopic
    | Inr subtopic \<Rightarrow> \<exists>pl. publish_plan topic = Inr pl \<and> channelId pl = c \<and>
        (\<forall>msg. m_channel msg = c \<longrightarrow> m_subtopic msg = subtopic \<longrightarrow> nats_subject msg = channelTopic pl)"
proof -
  note C = channelParts_Some [OF assms(1)]
  let ?es = "subtopic_elements topic"
  have es: "?es = filter (\<lambda>e. e \<noteq> []) (js_split CHR ''.'' (js_replace_all CHR ''/'' CHR ''.'' u))"
    using message_subtopic_elements [OF C(2) QueryUnescape_slash [OF assms(2) C(4)]] by (simp add: assms(5))
  have "topic_channel topic = Some c"
    unfolding assms(5) by (rule topic_channel_messages [OF C(1-3) assms(3,4)])
  then have parse: "parseTopic topic = Some (topic, Some c)"
    by (simp only: parseTopic_eq) simp
  show ?thesis
  proof (cases "invalid_subtopic ?es")
    case True
    then show ?thesis
      using parse by (simp add: parseSubtopic_eq [OF assms(2)] es [symmetric] publish_plan_def Let_def)
  next
    case False
    have "js_join CHR ''.'' ?es = [] \<longleftrightarrow> ?es = []"
      using subtopic_elements_parts by (intro js_join_Nil_iff) blast
    then show ?thesis
      using False parse assms(6)
      by (auto simp: parseSubtopic_eq [OF assms(2)] es [symmetric] publish_plan_def group1_def Let_def nats_subject_def)
  qed
qed

theorem http_subject_agrees_witness:
  "\<exists>pl. publish_plan ''channels/c1/messages/room/temp'' = Inr pl \<and> channelTopic pl = ''channel.c1.room.temp''"
proof -
  have "channelParts ''/channels/c1/messages/room%2Ftemp?x=1'' = Some (''c1'', ''/room%2Ftemp'')"
    by code_simp
  moreover have "QueryUnescape ''/room%2Ftemp'' = Some ''/room/temp''" "parseSubtopic ''/room%2Ftemp'' = Inr ''room.temp''"
    by code_simp+
  moreover have "one_line ''/room/temp''" "\<not> sublist ''/control'' ''/room/temp''"
    by code_simp+
  moreover have "split_content_type (subtopic_elements ''channels/c1/messages/room/temp'') =
      ([], subtopic_elements ''channels/c1/messages/room/temp'')"
    by code_simp
  ultimately have "\<exists>pl. publish_plan ''channels/c1/messages/room/temp'' = Inr pl \<and> channelId pl = ''c1'' \<and>
      (\<forall>msg. m_channel msg = ''c1'' \<longrightarrow> m_subtopic msg = ''room.temp'' \<longrightarrow> nats_subject msg = channelTopic pl)"
    using http_subject_agrees [of "''/channels/c1/messages/room%2Ftemp?x=1''" "''c1''" "''/room%2Ftemp''" "''/room/temp''"
        "''channels/c1/messages/room/temp''"] by simp
  then obtain pl where pl: "publish_plan ''channels/c1/messages/room/temp'' = Inr pl"
    "\<forall>msg. m_channel msg = ''c1'' \<longrightarrow> m_subtopic msg = ''room.temp'' \<longrightarrow> nats_subject msg = channelTopic pl"
    by blast
  then have "channelTopic pl = nats_subject (sample_message\<lparr>m_channel := ''c1'', m_subtopic := ''room.temp''\<rparr>)"
    by simp
  with pl(1) show ?thesis
    by (simp add: nats_subject_def)
qed

section \<open>Authorisation\<close>

text \<open>What the adapter publishes, for every things service that keeps the laws of its interface.\<close>

context things_service
begin

lemma http_post_published:
  assumes "inv s" "decodeRequest r = Inr (msg, token)" "token \<noteq> []" "m_channel msg \<noteq> []"
  shows "snd (fst (http_post can_access marshal nc r s)) = Some x \<longleftrightarrow>
    (\<exists>t. key_thing s token = Some t \<and> connected s (m_channel msg) t \<and> nats_Publish marshal nc (msg\<lparr>m_publisher := t\<rparr>) = Inr x)"
proof -
  obtain res s1 where res: "can_access token (m_channel msg) s = (res, s1)"
    by (cases "can_access token (m_channel msg) s")
  then have "snd (fst (http_post can_access marshal nc r s)) = Some x \<longleftrightarrow>
      (\<exists>t. res = Inr t \<and> nats_Publish marshal nc (msg\<lparr>m_publisher := t\<rparr>) = Inr x)"
    by (auto simp: http_post_def assms(2) adapter_Publish_def split: sum.splits)
  moreover have "key_thing s token = Some t \<and> connected s (m_channel msg) t \<longleftrightarrow> res = Inr t" for t
    using access_iff [OF assms(1,3,4), of t] by (simp add: res)
  ultimately show ?thesis
    by (metis (no_types, lifting))
qed

end

lemma nats_Publish_Inr:
  "nats_Publish marshal nc (msg\<lparr>m_publisher := t\<rparr>) = Inr (subject, data) \<longleftrightarrow>
     subject = nats_subject msg \<and> marshal (msg\<lparr>m_publisher := t\<rparr>) = Some data \<and> nc subject data"
proof -
  have "nats_subject (msg\<lparr>m_publisher := t\<rparr>) = nats_subject msg"
    by (simp add: nats_subject_def Let_def)
  then show ?thesis
    by (auto simp: nats_Publish_def Let_def split: option.splits if_splits)
qed

text \<open>
  C13. The HTTP adapter publishes exactly what is authorised and what NATS takes: while the caches of the things service agree
  with its tables and the service can be reached, a \<open>POST\<close> that can be decoded, with a key and a channel, is published if and only if
  the thing of the key is connected to the channel, the message with this thing as its publisher can be encoded, and NATS
  takes it under the subject of its channel and subtopic. It is answered with 403 if the thing of the key is not connected to
  the channel, which includes an unknown key and an unknown channel, with 202 if it is published, and with 500 if
  encoding or NATS fails.
\<close>

theorem http_post_authorised:
  assumes "things_inv pg_uuid s" and "decodeRequest r = Inr (msg, token)" and "token \<noteq> []" "m_channel msg \<noteq> []"
    and "http_post (grpc_CanAccessByKey pg_uuid) marshal nc r s = ((status, published), s')"
  shows "(published = Some (subject, data) \<longleftrightarrow>
      (\<exists>t. things_RetrieveByKey token s = Some t \<and> channels_HasThingByID pg_uuid (m_channel msg) t s \<and>
        subject = nats_subject msg \<and> marshal (msg\<lparr>m_publisher := t\<rparr>) = Some data \<and> nc subject data)) \<and>
    status = (if published \<noteq> None then 202
      else if \<exists>t. things_RetrieveByKey token s = Some t \<and> channels_HasThingByID pg_uuid (m_channel msg) t s then 500
      else 403)"
proof
  show "published = Some (subject, data) \<longleftrightarrow>
      (\<exists>t. things_RetrieveByKey token s = Some t \<and> channels_HasThingByID pg_uuid (m_channel msg) t s \<and>
        subject = nats_subject msg \<and> marshal (msg\<lparr>m_publisher := t\<rparr>) = Some data \<and> nc subject data)"
    using gs.http_post_published [OF assms(1-4), where marshal = marshal and nc = nc and x = "(subject, data)"] assms(5)
    by (simp add: nats_Publish_Inr)
  have grant: "(\<exists>t. things_RetrieveByKey token s = Some t \<and> channels_HasThingByID pg_uuid (m_channel msg) t s) \<longleftrightarrow>
      channels_HasThing pg_uuid (m_channel msg) token s \<noteq> None"
    by (auto simp: channels_HasThing_Some)
  show "status = (if published \<noteq> None then 202
      else if \<exists>t. things_RetrieveByKey token s = Some t \<and> channels_HasThingByID pg_uuid (m_channel msg) t s then 500 else 403)"
    unfolding grant using assms(2-5) CanAccessByKey_uncached [OF assms(1), of "m_channel msg" token]
    by (auto simp: http_post_def adapter_Publish_def grpc_CanAccessByKey_def encode_response_def uncached_access_def encodeError_def
        http_encodeError_def nats_Publish_def Let_def split: option.splits prod.splits sum.splits if_splits)
qed

definition sample_post :: publish_request where
  "sample_post = \<lparr> h_uri = ''/channels/c1/messages/room'', h_chan = ''c1'', h_authorization = ''k1'', h_contentType = [], h_body = Some ''21'' \<rparr>"

definition sample_posted :: message where
  "sample_posted = \<lparr> m_channel = ''c1'', m_topic = [], m_subtopic = ''room'', m_publisher = [], m_devname = [], m_protocol = ''http'',
     m_contentType = [], m_payload = ''21'' \<rparr>"

lemma decode_sample_post: "decodeRequest sample_post = Inr (sample_posted, ''k1'')"
  by code_simp

theorem http_post_authorised_witness:
  "fst (http_post (grpc_CanAccessByKey Some) (\<lambda>m. Some (m_payload m)) (\<lambda>_ _. True) sample_post sample_cached) =
     (202, Some (''channel.c1.room'', ''21'')) \<and>
   fst (http_post (grpc_CanAccessByKey Some) (\<lambda>m. Some (m_payload m)) (\<lambda>_ _. False) sample_post sample_cached) = (500, None)"
proof -
  have grant: "\<exists>t. things_RetrieveByKey ''k1'' sample_cached = Some t \<and> channels_HasThingByID Some ''c1'' t sample_cached"
    by (simp add: things_RetrieveByKey_def channels_HasThingByID_def sample_cached_eq sample_things_def)
  have "fst (http_post (grpc_CanAccessByKey Some) (\<lambda>m. Some (m_payload m)) (\<lambda>_ _. ok) sample_post sample_cached) =
      (if ok then (202, Some (''channel.c1.room'', ''21'')) else (500, None))" for ok
  proof -
    obtain status published s' where
      post: "http_post (grpc_CanAccessByKey Some) (\<lambda>m. Some (m_payload m)) (\<lambda>_ _. ok) sample_post sample_cached = ((status, published), s')"
      by (metis prod.collapse)
    note A = http_post_authorised [OF sample_cached_inv decode_sample_post _ _ post]
    have "published = Some (subject, data) \<longleftrightarrow> ok \<and> subject = ''channel.c1.room'' \<and> data = ''21''" for subject data
      using A [of subject data] grant by (auto simp: sample_posted_def nats_subject_def)
    then have "published = (if ok then Some (''channel.c1.room'', ''21'') else None)"
      by (cases published) auto
    with A grant post show ?thesis
      by (auto simp: sample_posted_def)
  qed
  from this [of True] this [of False] show ?thesis
    by simp
qed

text \<open>
  A request without credentials is answered with 503: the things service refuses an empty key as malformed, and
  the adapter takes every refusal other than a missing permission for a service that is not available.
\<close>

theorem http_post_without_key:
  assumes "decodeRequest r = Inr (msg, [])"
  shows "http_post (grpc_CanAccessByKey pg_uuid) marshal nc r s = ((503, None), s)"
  using assms by (simp add: http_post_def adapter_Publish_def grpc_CanAccessByKey_def encode_response_def encodeError_def http_encodeError_def)

theorem http_post_without_key_witness:
  "http_post (grpc_CanAccessByKey Some) (\<lambda>m. Some (m_payload m)) (\<lambda>_ _. True) (sample_post\<lparr>h_authorization := []\<rparr>) sample_cached =
     ((503, None), sample_cached)"
proof -
  have "decodeRequest (sample_post\<lparr>h_authorization := []\<rparr>) = Inr (sample_posted, [])"
    by code_simp
  then show ?thesis
    by (rule http_post_without_key)
qed

lemma mqtt_topic_messages:
  assumes "CHR ''/'' \<notin> set (m_channel m)"
  shows "\<exists>rest. js_split CHR ''/'' (mqtt_topic m) = ''channels'' # m_channel m # ''messages'' # rest"
proof -
  obtain x where x: "mqtt_topic m = ''channels/'' @ m_channel m @ CHR ''/'' # (''messages'' @ x)" "x = [] \<or> hd x = CHR ''/''"
    by (auto simp: mqtt_topic_def Let_def)
  moreover have "\<exists>rest. js_split CHR ''/'' (''messages'' @ x) = ''messages'' # rest"
  proof (cases x)
    case (Cons y ys)
    then have "js_split CHR ''/'' (''messages'' @ x) = js_split CHR ''/'' ''messages'' @ js_split CHR ''/'' ys"
      using x(2) js_split_append_sep [of "CHR ''/''" "''messages''" ys] by simp
    then show ?thesis
      by simp
  qed simp
  ultimately show ?thesis
    using js_split_topic [OF assms, of "''messages'' @ x"] by auto
qed

text \<open>
  C19. What is posted over HTTP arrives over MQTT: for a message that the HTTP adapter has published, the MQTT adapter gives
  its broker one packet with the same payload, under a topic that every subscription to all messages of the channel matches.
\<close>

theorem http_post_reaches_mqtt:
  assumes "http_post can_access marshal nc r s = ((202, Some (subject, bytes)), s')"
    and "\<forall>m b. marshal m = Some b \<longrightarrow> decode b = Some m"
    and "h_body r = Some payload" and "CHR ''/'' \<notin> set (h_chan r)" "CHR ''#'' \<notin> set (h_chan r)"
  shows "\<exists>pkt. trace (on_nats decode bytes a) = trace a @ [AedesPublish pkt] \<and> p_payload pkt = payload \<and>
    mqtt_matches (''channels/'' @ h_chan r @ ''/messages/#'') (p_topic pkt)"
proof -
  obtain msg token t where msg: "decodeRequest r = Inr (msg, token)" and bytes: "marshal (msg\<lparr>m_publisher := t\<rparr>) = Some bytes"
    using assms(1) by (auto simp: http_post_def adapter_Publish_def Let_def nats_Publish_Inr split: sum.splits prod.splits)
  have fields: "m_channel msg = h_chan r" "m_payload msg = payload" "m_protocol msg = ''http''"
    using msg assms(3) by (auto simp: decodeRequest_def split: option.splits sum.splits)
  let ?m = "msg\<lparr>m_publisher := t\<rparr>"
  have "nats_message ?m = Some \<lparr> p_cmd = ''publish'', p_qos = 2, p_topic = mqtt_topic ?m, p_payload = payload, p_retain = False \<rparr>"
    by (simp add: nats_message_def fields)
  moreover have "js_split CHR ''/'' (''channels/'' @ h_chan r @ ''/messages/#'') = [''channels'', h_chan r, ''messages'', ''#'']"
    using js_split_topic [OF assms(4), of "''messages/#''"] by simp
  moreover obtain rest where "js_split CHR ''/'' (mqtt_topic ?m) = ''channels'' # h_chan r # ''messages'' # rest"
    using mqtt_topic_messages [of ?m] assms(4) fields(1) by auto
  ultimately show ?thesis
    using assms(2,5) bytes by (auto simp: on_nats_def emit_def mqtt_matches_def)
qed

theorem http_post_reaches_mqtt_witness:
  "\<exists>bytes pkt. snd (fst (http_post (grpc_CanAccessByKey Some) (\<lambda>m. Some (sample_encode m)) (\<lambda>_ _. True) sample_post sample_cached)) = Some (''channel.c1.room'', bytes) \<and>
     trace (on_nats sample_decode bytes new_adapter) = [AedesPublish pkt] \<and> p_payload pkt = ''21'' \<and>
     mqtt_matches ''channels/c1/messages/#'' (p_topic pkt)"
proof -
  have "hasThing ''c1'' ''k1'' sample_cached = Some ''t1''"
    by (simp add: hasThing_def cache_defs sample_cached_eq tkey_def cid_def)
  then obtain bytes s' where post: "http_post (grpc_CanAccessByKey Some) (\<lambda>m. Some (sample_encode m)) (\<lambda>_ _. True) sample_post sample_cached =
      ((202, Some (''channel.c1.room'', bytes)), s')"
    by (simp add: http_post_def decode_sample_post adapter_Publish_def grpc_CanAccessByKey_def encode_response_def
        CanAccessByKey_def sample_posted_def nats_Publish_def nats_subject_def)
  have "\<forall>m b. Some (sample_encode m) = Some b \<longrightarrow> sample_decode b = Some m"
    by (simp add: sample_decode_encode)
  moreover have "h_body sample_post = Some ''21''" "CHR ''/'' \<notin> set (h_chan sample_post)" "CHR ''#'' \<notin> set (h_chan sample_post)"
    by (simp_all add: sample_post_def)
  ultimately obtain pkt where "trace (on_nats sample_decode bytes new_adapter) = trace new_adapter @ [AedesPublish pkt]"
    "p_payload pkt = ''21''" "mqtt_matches (''channels/'' @ h_chan sample_post @ ''/messages/#'') (p_topic pkt)"
    using http_post_reaches_mqtt [OF post] by blast
  with post show ?thesis
    by (simp add: new_adapter_def sample_post_def)
qed

end
