(* ===== verification/Things_Auth_Http.thy ===== *)
theory Things_Auth_Http
  imports Things_Cache
begin

text \<open>
  The HTTP interface of the authorisation calls of the things service (\<open>things/api/auth/http\<close>): the three
  endpoints with the decoding and validation of their requests and the encoding of errors, and their agreement
  with the gRPC endpoints that the adapters use. The body of a request is the outcome of decoding it as JSON: the
  field that the endpoint reads, which is empty where it is missing, or an error.
\<close>

section \<open>The code\<close>

datatype body_error = EOF | UnexpectedEOF | SyntaxError | UnmarshalTypeError | ReadError

datatype auth_error = SvcError svc_error | errUnsupportedContentType | BodyError body_error

definition auth_encodeError :: "auth_error \<Rightarrow> nat" where
  "auth_encodeError e =
     (case e of
        SvcError ErrUnauthorizedAccess \<Rightarrow> 403
      | errUnsupportedContentType \<Rightarrow> 415
      | BodyError UnexpectedEOF \<Rightarrow> 400
      | BodyError EOF \<Rightarrow> 400
      | BodyError SyntaxError \<Rightarrow> 400
      | BodyError UnmarshalTypeError \<Rightarrow> 400
      | _ \<Rightarrow> 500)"

definition auth_decode :: "string \<Rightarrow> body_error + string \<Rightarrow> auth_error + string" where
  "auth_decode ctype body =
     (if \<not> sublist ''application/json'' ctype then Inl errUnsupportedContentType
      else case body of Inl e \<Rightarrow> Inl (BodyError e) | Inr field \<Rightarrow> Inr field)"

text \<open>A server of go-kit: decode, call the endpoint, encode the response or the error.\<close>

definition auth_server ::
  "string \<Rightarrow> body_error + string \<Rightarrow> (string \<Rightarrow> 's \<Rightarrow> (svc_error + 'a) \<times> 's) \<Rightarrow> 's \<Rightarrow> (nat \<times> 'a option) \<times> 's" where
  "auth_server ctype body endpoint s =
     (case auth_decode ctype body of
        Inl e \<Rightarrow> ((auth_encodeError e, None), s)
      | Inr field \<Rightarrow>
          (let (r, s) = endpoint field s in
           case r of
             Inl e \<Rightarrow> ((auth_encodeError (SvcError e), None), s)
           | Inr a \<Rightarrow> ((200, Some a), s)))"

definition http_identifyEndpoint :: "string \<Rightarrow> things_state \<Rightarrow> (svc_error + string) \<times> things_state" where
  "http_identifyEndpoint token s = (if token = [] then (Inl ErrUnauthorizedAccess, s) else Identify token s)"

definition http_canAccessByKeyEndpoint ::
  "(string \<Rightarrow> string option) \<Rightarrow> string \<Rightarrow> string \<Rightarrow> things_state \<Rightarrow> (svc_error + string) \<times> things_state" where
  "http_canAccessByKeyEndpoint pg_uuid chanID token s =
     (if token = [] \<or> chanID = [] then (Inl ErrUnauthorizedAccess, s) else CanAccessByKey pg_uuid chanID token s)"

definition http_canAccessByIDEndpoint ::
  "(string \<Rightarrow> string option) \<Rightarrow> string \<Rightarrow> string \<Rightarrow> things_state \<Rightarrow> (svc_error + unit) \<times> things_state" where
  "http_canAccessByIDEndpoint pg_uuid chanID thingID s =
     (if thingID = [] \<or> chanID = [] then (Inl ErrUnauthorizedAccess, s)
      else (let (e, s) = CanAccessByID pg_uuid chanID thingID s in (case e of Some e \<Rightarrow> Inl e | None \<Rightarrow> Inr (), s)))"

section \<open>Agreement with gRPC\<close>

definition status_of :: "grpc_status + 'a \<Rightarrow> nat \<times> 'a option" where
  "status_of r =
     (case r of
        Inr a \<Rightarrow> (200, Some a)
      | Inl InvalidArgument \<Rightarrow> (403, None)
      | Inl PermissionDenied \<Rightarrow> (403, None)
      | Inl _ \<Rightarrow> (500, None))"

lemma CanAccessByKey_errors: "fst (CanAccessByKey pg_uuid c k s) = Inl e \<Longrightarrow> e = ErrUnauthorizedAccess"
  by (auto simp: CanAccessByKey_def split: option.splits)

lemma CanAccessByID_errors: "fst (CanAccessByID pg_uuid c t s) = Some e \<Longrightarrow> e = ErrUnauthorizedAccess"
  by (auto simp: CanAccessByID_def split: if_splits)

lemma Identify_errors: "fst (Identify k s) = Inl e \<Longrightarrow> e = ErrUnauthorizedAccess"
  by (auto simp: Identify_def split: option.splits)

lemma auth_server_undecoded:
  assumes "auth_decode ctype body = Inl e"
  shows "auth_server ctype body endpoint s = ((auth_encodeError e, None), s)"
  using assms by (simp add: auth_server_def)

lemmas agree_defs = auth_server_def auth_decode_def http_canAccessByKeyEndpoint_def http_canAccessByIDEndpoint_def
  http_identifyEndpoint_def grpc_CanAccessByKey_def grpc_CanAccessByID_def grpc_Identify_def encode_response_def encodeError_def
  auth_encodeError_def status_of_def

text \<open>
  C37. The two interfaces of the things service agree except on an empty key to identify: for a request with a JSON body that
  can be decoded, each of the three HTTP endpoints gives the same answer as its gRPC twin, leaves the same state,
  and answers 403 where gRPC refuses, but \<open>Identify\<close> with an empty key is refused by HTTP with 403 without a look at the
  tables, while gRPC, which does not validate this request, looks the empty key up. A request with another
  content type is answered with 415, one whose body is malformed with 400 and one whose body cannot be read with
  500, by each of the three, and the state is unchanged.
\<close>

theorem http_grpc_agree:
  "(sublist ''application/json'' ctype \<longrightarrow>
     (let (r, s') = grpc_CanAccessByKey pg_uuid token chanID s in
      auth_server ctype (Inr token) (http_canAccessByKeyEndpoint pg_uuid chanID) s = (status_of r, s')) \<and>
     (let (r, s') = grpc_CanAccessByID pg_uuid token chanID s in
      auth_server ctype (Inr token) (http_canAccessByIDEndpoint pg_uuid chanID) s = (status_of r, s')) \<and>
     (let (r, s') = grpc_Identify token s in
      auth_server ctype (Inr token) http_identifyEndpoint s = (if token = [] then ((403, None), s) else (status_of r, s')))) \<and>
   (\<not> sublist ''application/json'' ctype \<or> body = Inl e \<longrightarrow>
     (let code = (if \<not> sublist ''application/json'' ctype then 415 else if e = ReadError then 500 else 400) in
      auth_server ctype body (http_canAccessByKeyEndpoint pg_uuid chanID) s = ((code, None), s) \<and>
      auth_server ctype body (http_canAccessByIDEndpoint pg_uuid chanID) s = ((code, None), s) \<and>
      auth_server ctype body http_identifyEndpoint s = ((code, None), s)))"
proof (intro conjI impI)
  assume json: "sublist ''application/json'' ctype"
  show "let (r, s') = grpc_CanAccessByKey pg_uuid token chanID s in
      auth_server ctype (Inr token) (http_canAccessByKeyEndpoint pg_uuid chanID) s = (status_of r, s')"
    using json CanAccessByKey_errors [of pg_uuid chanID token s]
    by (auto simp: agree_defs split: sum.splits prod.splits)
  show "let (r, s') = grpc_CanAccessByID pg_uuid token chanID s in
      auth_server ctype (Inr token) (http_canAccessByIDEndpoint pg_uuid chanID) s = (status_of r, s')"
    using json CanAccessByID_errors [of pg_uuid chanID token s]
    by (auto simp: agree_defs split: option.splits prod.splits)
  show "let (r, s') = grpc_Identify token s in
      auth_server ctype (Inr token) http_identifyEndpoint s = (if token = [] then ((403, None), s) else (status_of r, s'))"
    using json Identify_errors [of token s]
    by (auto simp: agree_defs split: sum.splits prod.splits)
next
  let ?code = "if \<not> sublist ''application/json'' ctype then 415 else if e = ReadError then 500 else (400 :: nat)"
  assume "\<not> sublist ''application/json'' ctype \<or> body = Inl e"
  then have "auth_decode ctype body = Inl (if \<not> sublist ''application/json'' ctype then errUnsupportedContentType else BodyError e)"
    by (auto simp: auth_decode_def)
  moreover have "auth_encodeError (if \<not> sublist ''application/json'' ctype then errUnsupportedContentType else BodyError e) = ?code"
    by (cases e) (simp_all add: auth_encodeError_def)
  ultimately obtain err where "auth_decode ctype body = Inl err" "auth_encodeError err = ?code"
    by blast
  then show "let code = ?code in
      auth_server ctype body (http_canAccessByKeyEndpoint pg_uuid chanID) s = ((code, None), s) \<and>
      auth_server ctype body (http_canAccessByIDEndpoint pg_uuid chanID) s = ((code, None), s) \<and>
      auth_server ctype body http_identifyEndpoint s = ((code, None), s)"
    by (simp add: auth_server_undecoded Let_def)
qed

theorem http_grpc_agree_witness:
  "fst (auth_server ''application/json'' (Inr ''k1'') (http_canAccessByKeyEndpoint Some ''c1'') sample_cached) = (200, Some ''t1'') \<and>
   fst (auth_server ''text/plain'' (Inr ''k1'') http_identifyEndpoint sample_cached) = (415, None)"
proof -
  have json: "sublist ''application/json'' ''application/json''" "\<not> sublist ''application/json'' ''text/plain''"
    by (auto dest: sublist_length_le)
  have "fst (grpc_CanAccessByKey Some ''k1'' ''c1'' sample_cached) = Inr ''t1''"
    by (simp add: grpc_CanAccessByKey_def encode_response_def CanAccessByKey_def hasThing_def cache_defs sample_cached_eq tkey_def cid_def)
  moreover have "let (r, s') = grpc_CanAccessByKey Some ''k1'' ''c1'' sample_cached in
      auth_server ''application/json'' (Inr ''k1'') (http_canAccessByKeyEndpoint Some ''c1'') sample_cached = (status_of r, s')"
    using http_grpc_agree [of "''application/json''" Some "''k1''" "''c1''"] json(1) by blast
  moreover have "auth_server ''text/plain'' (Inr ''k1'') http_identifyEndpoint sample_cached = ((415, None), sample_cached)"
    using http_grpc_agree [of "''text/plain''" Some "[]" "''c1''" sample_cached "Inr ''k1''" EOF] json(2) by (simp add: Let_def)
  ultimately show ?thesis
    by (auto simp: status_of_def)
qed

end
