(* ===== verification/Grafana_Branding.thy ===== *)
theory Grafana_Branding
  imports Complex_Main Js_Prelude
begin

text \<open>
  The branding of the dashboards, \<open>docker/grafana/branding/Branding.tsx\<close>: the React components of
  the login page and of the menu, and the subtitle that is chosen at random. A component is a
  function from its properties to an element; \<open>css\<close> and \<open>cx\<close> of the package \<open>emotion\<close>, which
  turn a style sheet into a class name and join class names, are parameters. \<open>Math.random()\<close> is the
  argument \<open>rnd\<close>, a number of the half-open interval from 0 to 1.
\<close>

section \<open>The code\<close>

record theme =
  isDark :: bool
  isLight :: bool

datatype element =
    Img (className: "string option") (src: string) (alt: string)
  | Div (className: "string option") (children: "element list")

definition LoginLogo :: "string option \<Rightarrow> element" where
  "LoginLogo cn = Img cn ''public/img/grafana_icon.svg'' ''ADO''"

definition newline :: string where
  "newline = [char_of (10 :: nat)]"

definition LoginBackground ::
  "(string \<Rightarrow> string) \<Rightarrow> (string \<Rightarrow> string option \<Rightarrow> string) \<Rightarrow> theme \<Rightarrow> string option \<Rightarrow> element list \<Rightarrow> element" where
  "LoginBackground css cx theme cn ch =
     (let background = css (newline @ ''    background: url(public/img/login_background_'' @
            (if isDark theme then ''dark'' else ''light'') @ ''.svg);'' @ newline @
            ''    background-size: cover;'' @ newline @ ''  '')
      in Div (Some (cx background cn)) ch)"

definition MenuLogo :: "string option \<Rightarrow> element" where
  "MenuLogo cn = Img cn ''public/img/grafana_icon.svg'' ''ADO''"

definition LoginBoxBackground :: "(string \<Rightarrow> string) \<Rightarrow> theme \<Rightarrow> string" where
  "LoginBoxBackground css theme =
     css (newline @ ''    background: '' @
       (if isLight theme then ''rgba(6, 30, 200, 0.1 )'' else ''rgba(18, 28, 41, 0.65)'') @ '';'' @ newline @
       ''    background-size: cover;'' @ newline @ ''  '')"

definition AppTitle :: string where
  "AppTitle = ''Grafana''"

definition LoginTitle :: string where
  "LoginTitle = ''Welcome to ADO''"

text \<open>\<open>slogans[Math.floor(Math.random() * count)]\<close>, \<open>undefined\<close> out of range.\<close>

definition GetLoginSubTitle :: "rat \<Rightarrow> string option" where
  "GetLoginSubTitle rnd =
     (let slogans = [''Open Digital Aquaculture'', ''Open Digital Aquaculture''];
          count = length slogans
      in js_nth slogans (nat \<lfloor>rnd * of_nat count\<rfloor>))"

section \<open>Properties\<close>

text \<open>The index of a random element is in range.\<close>

lemma random_index:
  assumes "0 \<le> rnd" "rnd < (1 :: rat)" "0 < n"
  shows "nat \<lfloor>rnd * of_nat n\<rfloor> < n"
proof -
  have "rnd * of_nat n < of_nat n"
    using assms by simp
  then have "\<lfloor>rnd * of_nat n\<rfloor> < int n"
    by (simp add: floor_less_iff)
  then show ?thesis
    using assms(3) by linarith
qed

text \<open>
  The login page always has its subtitle: for every value that \<open>Math.random\<close> can give, the index is in
  range and the text is the slogan, never \<open>undefined\<close>.
\<close>

theorem GetLoginSubTitle_defined:
  assumes "0 \<le> rnd" "rnd < 1"
  shows "GetLoginSubTitle rnd = Some ''Open Digital Aquaculture''"
proof -
  have "nat \<lfloor>rnd * of_nat 2\<rfloor> < 2"
    using random_index [OF assms, of 2] by simp
  then have "nat \<lfloor>rnd * 2\<rfloor> = 0 \<or> nat \<lfloor>rnd * 2\<rfloor> = 1"
    by simp linarith
  then show ?thesis
    by (auto simp: GetLoginSubTitle_def js_nth_def)
qed

theorem GetLoginSubTitle_defined_witness: "GetLoginSubTitle (3 / 4) = Some ''Open Digital Aquaculture''"
  by (rule GetLoginSubTitle_defined) simp_all

end
