(* ===== verification/Spec2Isabelle.thy ===== *)
theory Spec2Isabelle
  imports Nginx_Fragments Adapter_Http Things_Views Bootstrap_Events Http_Adapter Things_Auth_Http Topic_Filters
    Grafana_Branding
begin

text \<open>
  A verification library for the message path of the ADO backend, a fork of the Mainflux IoT platform.

  \<^bold>\<open>The program.\<close> Devices (\<^emph>\<open>things\<close>) exchange messages over \<^emph>\<open>channels\<close>. A thing
  has a secret key; it may use a channel if a user has connected it to the channel. On the MQTT path a
  TLS connection first meets the nginx scripts \<open>docker/ssl/authorization.js\<close>, which compare the
  common name of the client certificate with the MQTT password or the HTTP authorization. Behind
  nginx, \<open>mqtt/aedes/mqtt.js\<close> runs the MQTT broker aedes and supplies its callbacks: it
  authenticates clients and authorises publish and subscribe packets by gRPC calls to the things
  service, forwards published packets to NATS, republishes NATS messages of the other protocols
  to MQTT, and writes connection events to a Redis stream. The HTTP adapter (\<open>http/\<close>, in Go) publishes
  posted messages to NATS after the same authorisation. The things service (\<open>things/\<close>, in Go) answers
  the gRPC calls from PostgreSQL tables with two Redis caches in front of them, and writes an event for every
  change to another Redis stream. The bootstrap service (\<open>bootstrap/\<close>, in Go) reads these events
  and updates its own copies of the things and channels.

  \<^bold>\<open>The theories.\<close>
  \<^item> \<open>Js_Prelude\<close>: the parts of JavaScript that the scripts use (strings, \<open>split\<close>, \<open>join\<close>,
    \<open>replace\<close>, \<open>codePointAt\<close>, \<open>parseInt\<close>, \<open>Number\<close>, comparisons with \<open>undefined\<close>) and the shared
    lemmas. Strings are lists of bytes.
  \<^item> \<open>Js_Regex\<close>: the backtracking matcher of JavaScript regular expressions, as far as
    \<open>parseTopic\<close> uses it, and its specification.
  \<^item> \<open>Mqtt_Connect\<close>: \<open>parsePackage\<close> and \<open>calcLen\<close> of \<open>authorization.js\<close>, against an encoder of MQTT
    3.1.1 CONNECT packets. They find the password exactly when every length is one that the two
    length computations get right; the lemmas say which lengths these are.
  \<^item> \<open>Nginx_Auth\<close>: \<open>authenticate\<close>, \<open>setKey\<close> and \<open>parseCert\<close>: which streams are allowed, which
    keys are forwarded, and how the check can be passed with another password.
    \<open>Nginx_Fragments\<close>: packets that arrive in pieces. The script decides on the first piece, so a
    certificate whose name is a prefix of the password is let through for one way of cutting the packet.
  \<^item> \<open>Mqtt_Topics\<close>: \<open>parseTopic\<close>, the subject, subtopic and content type of a publish, and the topic
    of a NATS message; the round trip between the two. \<open>Topic_Filters\<close>: what a subscription to a filter
    can receive.
  \<^item> \<open>Adapter_Config\<close>, \<open>Adapter_Http\<close>: the configuration and the options of the clients, the two
    servers of \<open>startWs\<close> and \<open>startMqtt\<close>, the HTTP listener, and the loggers.
  \<^item> \<open>Things_Api\<close>: the interface between the adapters and the things service as two locales. \<open>things_service\<close>
    has the exact answers, under an invariant of the service; \<open>managed_things\<close> adds the users and what can be
    said of an answer without the invariant: that it held at some time (\<open>held\<close>).
    \<open>Things_Service\<close>: the tables with their columns and keys, the caches, the operations that change state or decide
    access, and the gRPC endpoints of the service. \<open>Things_Cache\<close>: the invariant that ties the caches to the tables,
    the conditions under which the requests keep it (\<open>cache_safe\<close>), which the service does not enforce, the
    interpretation of the two locales on the service with users who may make any request (\<open>admin_step\<close>), and what granting
    and revoking access do.
  \<^item> \<open>Things_Views\<close>: the operations that read the tables (\<open>View\<close> and \<open>List\<close>) with the filters, order and
    pages of their queries. The pages of a listing together are exactly the rows of the owner, each
    once; a thing is listed for a channel exactly when its key has access.
  \<^item> \<open>Things_Events\<close>: the event store, a wrapper of every operation that changes the tables, and the
    encoding of its events. The locale \<open>event_sourced\<close> states when a log determines a state; its interpretation
    on the service shows that the stream alone reproduces the tables, for requests under the conditions given there. An operation of one user leaves the rows
    of the others as they are.
  \<^item> \<open>Bootstrap_Events\<close>: the consumer of this stream in the bootstrap service, from the batch of
    entries to the statements on its tables, each of which the database may refuse, which removals it carries over, and
    where its state and that of the things service part.
  \<^item> \<open>Http_Adapter\<close>: the HTTP adapter, from the request to the NATS subject, with the failures of the encoder and of
    NATS. It is a second client of the locale \<open>things_service\<close>; its subtopic parser agrees with the one of the MQTT
    adapter, and what it publishes reaches the MQTT topic of the same levels. \<open>Things_Auth_Http\<close>: the HTTP twin of the
    gRPC endpoints, and the one request that they treat differently.
  \<^item> \<open>Adapter\<close>: the handlers and callbacks of \<open>mqtt.js\<close> as functions on the state of the adapter.
    \<open>Adapter_System\<close>: the adapter among the broker, the service, the users and NATS as a step relation;
    every call of a handler is answered once, and the safety and progress lemmas are proved in the locale
    \<open>managed_things\<close>.
  \<^item> \<open>Grafana_Branding\<close>: the components of \<open>docker/grafana/branding/Branding.tsx\<close>.
  \<^item> This theory: the whole system, that is, the steps of the adapter on the endpoints of the
    things service, and the properties that span them: what reaches NATS was authorised, subscriptions are
    confidential, accepted clients are things, connected things can publish. The users may make any request between
    any two steps, also those that leave the caches of the service behind its tables.

  \<^bold>\<open>Correspondence.\<close> A handler that calls the things service is cut at the call: the first half leaves
  a request in the state with the variables its closure holds, \<open>on_reply\<close> is the callback. Each
  synchronous piece of JavaScript is one step, so that the interleavings are those of the event loop.
  What the program does to the outside (logging, callbacks of the broker, NATS, the event stream) is
  the list \<open>trace\<close>. The operations of the Go services are functions on the state of the tables and caches,
  one per method, which return the error or the result and the new state; each of them is one step. JavaScript exceptions, Go errors
  and gRPC statuses are values. Loops are recursive functions with termination proofs; no fuel is used.

  \<^bold>\<open>Parameters.\<close> The encoders and decoder of \<open>message.proto\<close>, the NATS connection of the HTTP adapter, PostgreSQL's reading of a text
  as a UUID and that of the Go package for UUIDs, the containment of JSON values in PostgreSQL, the user
  authentication of the things service, the identity provider, the matching of topic filters by the broker,
  the refusals of the database of the bootstrap service, and the class names of the styling package
  are parameters; what a theorem needs of them is a hypothesis, with an example that satisfies
  it. The broker is bound by the order of the MQTT protocol only. The path segment that the HTTP router
  binds and the outcome of decoding a JSON body are fields of the request.

  \<^bold>\<open>Not modelled.\<close> Failures of PostgreSQL and Redis in the things service, interleavings of its operations
  inside one of them, failures of the NATS client of the MQTT adapter, which publishes without waiting, the
  rounding of numbers other than to zero, the trimming of the event stream, tracing, logging and metrics of the Go services, the HTTP API through which users reach the things
  service, quality of service, retained messages and persistence inside aedes, the WebSocket framing,
  characters outside one byte, the operations of users on the bootstrap service, and the other services of the
  platform (users, authn, provisioning, the WebSocket, CoAP, LoRa and OPC UA adapters, readers and writers,
  the VerneMQ plugin, the dashboards). The bundle under \<open>docker/grafana/build\<close> is a minified build of Grafana.

  \<^bold>\<open>Plan.\<close> Next are the HTTP API of the things service for users, the operations of the bootstrap
  service, whose rows its consumer changes, and the subtopic parsers of the WebSocket and CoAP adapters,
  compared with the one that the MQTT and HTTP adapters share.
\<close>

section \<open>The adapter on the things service\<close>

text \<open>The whole system: the steps of the adapter, with the gRPC endpoints of the things service and
  the operations of its users.\<close>

abbreviation run ::
  "(string \<Rightarrow> string option) \<Rightarrow> (string \<Rightarrow> string option) \<Rightarrow> (message \<Rightarrow> string) \<Rightarrow> (string \<Rightarrow> message option) \<Rightarrow> config \<Rightarrow>
   things_state system \<Rightarrow> things_state system \<Rightarrow> bool" where
  "run pg_uuid auth encode decode cfg \<equiv>
     (sys_step (grpc_CanAccessByKey pg_uuid) grpc_Identify (admin_step pg_uuid auth) encode decode cfg)\<^sup>*\<^sup>*"

text \<open>A database of one thing with the key \<open>k1\<close>, connected to the channel \<open>c1\<close>.\<close>

definition pg_text :: "string \<Rightarrow> string option" where
  "pg_text s = (if uuid_text s then Some s else None)"

definition sample_service :: things_state where
  "sample_service = \<lparr> things_tbl = [\<lparr> t_id = ''d1'', t_owner = ''joe'', t_key = ''k1'', t_name = ''pump'', t_metadata = [] \<rparr>],
     channels_tbl = [\<lparr> c_id = ''c1'', c_owner = ''joe'', c_name = ''pond'', c_metadata = None \<rparr>],
     conns_tbl = [\<lparr> co_channel = ''c1'', co_thing = ''d1'', co_owner = ''joe'' \<rparr>],
     redis_str = (\<lambda>_. None), redis_set = (\<lambda>_. {}) \<rparr>"

lemma pg_text_sample: "pg_text ''c1'' = Some ''c1''" "pg_text ''d1'' = Some ''d1''"
  by (simp_all add: pg_text_def uuid_text_def hex_val_def)

lemma sample_service_ok:
  "things_inv pg_text sample_service" "things_RetrieveByKey ''k1'' sample_service = Some ''d1''"
  "channels_HasThingByID pg_text ''c1'' ''d1'' sample_service" "caches_true pg_text sample_service"
  by (simp_all add: caches_true_def things_inv_def tables_ok_def cache_ok_def sample_service_def things_RetrieveByKey_def
      channels_HasThingByID_def pg_text_sample)

definition sample_config :: config where
  "sample_config = read_config sample_env None"

text \<open>The topic of the examples.\<close>

definition sample_plan :: pub_plan where
  "sample_plan = \<lparr> channelId = ''c1'', msgtopic = Some ''messages'', contentType = [], st = [], channelTopic = ''channel.c1'' \<rparr>"

lemma sample_plan_eq: "publish_plan ''channels/c1/messages'' = Inr sample_plan"
  using publish_plan_levels [of "''c1''" "[]" "[]" "[]"]
  by (simp add: sample_plan_def split_content_type_def line_terminator_def)

text \<open>The examples of runs: the thing connects, and then publishes or subscribes.\<close>

lemma sample_connected:
  "\<exists>x. run pg_text Some sample_encode sample_decode sample_config (new_system sample_service) x \<and> fresh_ok x \<and>
     things_inv pg_text (svc x) \<and> phases x 1 = Connected \<and> password (clients (adp x) 1) = Some ''k1'' \<and>
     thingId (clients (adp x) 1) = Some ''d1'' \<and> things_RetrieveByKey ''k1'' (svc x) = Some ''d1'' \<and>
     channels_HasThingByID pg_text ''c1'' ''d1'' (svc x)"
proof -
  have "fresh_ok (new_system sample_service)" "phases (new_system sample_service) 1 = Fresh"
    "svc (new_system sample_service) = sample_service"
    by (simp_all add: fresh_ok_def new_system_def new_adapter_def)
  from ms.connect_succeeds [of "new_system sample_service" pg_text 1 "''k1''" "''d1''" Some sample_encode sample_decode
      sample_config, unfolded this(3), OF this(1) sample_service_ok(1) this(2) sample_service_ok(2)]
  obtain x where x: "run pg_text Some sample_encode sample_decode sample_config (new_system sample_service) x" "fresh_ok x"
    "things_inv pg_text (svc x)" "phases x 1 = Connected" "password (clients (adp x) 1) = Some ''k1''"
    "thingId (clients (adp x) 1) = Some ''d1''"
    "(\<lambda>k. things_RetrieveByKey k (svc x)) = (\<lambda>k. things_RetrieveByKey k sample_service)"
    "(\<lambda>c t. channels_HasThingByID pg_text c t (svc x)) = (\<lambda>c t. channels_HasThingByID pg_text c t sample_service)"
    by auto
  then show ?thesis
    using fun_cong [OF x(7), of "''k1''"] fun_cong [OF fun_cong [OF x(8), of "''c1''"], of "''d1''"] sample_service_ok by auto
qed

lemma sample_published:
  "\<exists>x m. run pg_text Some sample_encode sample_decode sample_config (new_system sample_service) x \<and>
     m_channel m = ''c1'' \<and> m_publisher m = ''d1'' \<and> NatsPublish (subject_of m) (sample_encode m) \<in> set (trace (adp x))"
proof -
  obtain x where x: "run pg_text Some sample_encode sample_decode sample_config (new_system sample_service) x" "fresh_ok x"
    "things_inv pg_text (svc x)" "phases x 1 = Connected" "password (clients (adp x) 1) = Some ''k1''"
    "thingId (clients (adp x) 1) = Some ''d1''" "things_RetrieveByKey ''k1'' (svc x) = Some ''d1''"
    "channels_HasThingByID pg_text ''c1'' ''d1'' (svc x)"
    using sample_connected by blast
  let ?m = "published_message (clients (adp x) 1) sample_plan ''21''"
  have m: "m_channel ?m = ''c1''" "m_publisher ?m = ''d1''"
    using x(6) by (simp_all add: published_message_def sample_plan_def proto_text_def)
  have c1: "channels_HasThingByID pg_text (channelId sample_plan) ''d1'' (svc x)"
    using x(8) by (simp add: sample_plan_def)
  obtain y where "run pg_text Some sample_encode sample_decode sample_config x y"
    "NatsPublish (subject_of ?m) (sample_encode ?m) \<in> set (trace (adp y))"
    using ms.publish_succeeds [OF x(2,4,5,7) _ c1 sample_plan_eq, where auth = Some and payload = "''21''" and
        encode = sample_encode and decode = sample_decode and cfg = sample_config] by (auto simp: Let_def)
  with x(1) m show ?thesis
    by (meson rtranclp_trans)
qed

definition sample_filter :: subscription where
  "sample_filter = \<lparr> s_topic = ''channels/c1/messages/#'', s_qos = 1 \<rparr>"

lemma sample_filter_channel: "topic_channel (s_topic sample_filter) = Some ''c1''"
proof -
  have "\<not> sublist ''/control'' ''/#''"
    by (auto dest: sublist_length_le)
  then show ?thesis
    using topic_channel_messages [of "''c1''" "''/#''"] by (simp add: sample_filter_def line_terminator_def)
qed

lemma sample_subscribed:
  "\<exists>x n. run pg_text Some sample_encode sample_decode sample_config (new_system sample_service) x \<and>
     SubscribeCb n None (Some sample_filter) \<in> set (trace (adp x))"
proof -
  obtain x where x: "run pg_text Some sample_encode sample_decode sample_config (new_system sample_service) x" "fresh_ok x"
    "things_inv pg_text (svc x)" "phases x 1 = Connected" "password (clients (adp x) 1) = Some ''k1''"
    "things_RetrieveByKey ''k1'' (svc x) = Some ''d1''" "channels_HasThingByID pg_text ''c1'' ''d1'' (svc x)"
    using sample_connected by blast
  obtain y where "run pg_text Some sample_encode sample_decode sample_config x y"
    "SubscribeCb (next_call (adp x)) None (Some sample_filter) \<in> set (trace (adp y))"
    using ms.subscribe_succeeds [OF x(2,4-6) _ x(7) sample_filter_channel, where auth = Some and
        encode = sample_encode and decode = sample_decode and cfg = sample_config] by auto
  with x(1) show ?thesis
    by (meson rtranclp_trans)
qed

section \<open>Properties that span the components\<close>




definition http_message :: message where
  "http_message = \<lparr> m_channel = ''c1'', m_topic = [], m_subtopic = ''room'', m_publisher = ''d2'', m_devname = [],
     m_protocol = ''http'', m_contentType = [], m_payload = ''21'' \<rparr>"


text \<open>
  No filter with a wildcard in the place of the channel is ever granted: \<open>channels/+/messages\<close> and the
  like are refused, because no text with a wildcard is the identifier of a channel.
\<close>

theorem wildcard_channel_refused:
  assumes "run pg_uuid auth encode decode cfg (new_system s0) x" and "caches_true pg_uuid s0"
    and "\<forall>c. pg_uuid c \<noteq> None \<longrightarrow> uuid_text c"
    and "SubscribeCb n None (Some pkt) \<in> set (trace (adp x))"
  shows "\<exists>c r. js_split CHR ''/'' (s_topic pkt) = ''channels'' # c # r \<and> CHR ''+'' \<notin> set c \<and> CHR ''#'' \<notin> set c"
proof -
  obtain c t s where c: "topic_channel (s_topic pkt) = Some c"
    "held (admin_step pg_uuid auth) s0 s (\<lambda>s1. channels_HasThingByID pg_uuid c t s1)"
    using ms.subscribe_safe [OF assms(1) caches_trueD [OF assms(2)] assms(4)] by blast
  then have "uuid_text c"
    using assms(3) by (auto simp: held_def HasThingByID_row)
  then show ?thesis
    using topic_channel_split [OF c(1)] uuid_text_chars [of c] by blast
qed

theorem wildcard_channel_refused_witness:
  "\<exists>c r. js_split CHR ''/'' (s_topic sample_filter) = ''channels'' # c # r \<and> CHR ''+'' \<notin> set c \<and> CHR ''#'' \<notin> set c"
proof -
  obtain x n where x: "run pg_text Some sample_encode sample_decode sample_config (new_system sample_service) x"
    "SubscribeCb n None (Some sample_filter) \<in> set (trace (adp x))"
    using sample_subscribed by blast
  have uuid: "\<forall>c. pg_text c \<noteq> None \<longrightarrow> uuid_text c"
    by (simp add: pg_text_def)
  show ?thesis
    using wildcard_channel_refused [OF x(1) sample_service_ok(4) uuid x(2)] .
qed



text \<open>
  C17. A connected thing can publish: in every reachable state, a packet of an accepted client for a
  topic of a channel that the thing of its key is connected to can be followed by the one message to
  NATS and the positive answer to the broker, whatever the caches of the service hold.
\<close>

theorem connected_thing_publishes:
  assumes "run pg_uuid auth encode decode cfg (new_system s0) x" and "phases x cl = Connected"
    and "password (clients (adp x) cl) = Some k" "k \<noteq> []" and "things_RetrieveByKey k (svc x) = Some t"
    and "publish_plan topic = Inr pl" and "channels_HasThingByID pg_uuid (channelId pl) t (svc x)"
  shows "\<exists>y. run pg_uuid auth encode decode cfg x y \<and>
    (let m = published_message (clients (adp x) cl) pl payload in
      \<exists>log. trace (adp y) = trace (adp x) @ [log, NatsPublish (subject_of m) (encode m), PublishCb (next_call (adp x)) None])"
proof -
  have "fresh_ok x"
    using sys_ok_reachable [OF assms(1)] by (simp add: sys_ok_def)
  then show ?thesis
    using ms.publish_succeeds [OF _ assms(2,3,5,4,7,6)] by blast
qed

theorem connected_thing_publishes_witness:
  "\<exists>x y m log. run pg_text Some sample_encode sample_decode sample_config x y \<and> m_channel m = ''c1'' \<and> m_publisher m = ''d1'' \<and>
     trace (adp y) = trace (adp x) @ [log, NatsPublish (subject_of m) (sample_encode m), PublishCb (next_call (adp x)) None]"
proof -
  obtain x where x: "run pg_text Some sample_encode sample_decode sample_config (new_system sample_service) x"
    "phases x 1 = Connected" "password (clients (adp x) 1) = Some ''k1''" "thingId (clients (adp x) 1) = Some ''d1''"
    "things_RetrieveByKey ''k1'' (svc x) = Some ''d1''" "channels_HasThingByID pg_text (channelId sample_plan) ''d1'' (svc x)"
    using sample_connected by (auto simp: sample_plan_def)
  let ?m = "published_message (clients (adp x) 1) sample_plan ''21''"
  have "m_channel ?m = ''c1''" "m_publisher ?m = ''d1''"
    using x(4) by (simp_all add: published_message_def sample_plan_def proto_text_def)
  moreover obtain y log where "run pg_text Some sample_encode sample_decode sample_config x y"
    "trace (adp y) = trace (adp x) @ [log, NatsPublish (subject_of ?m) (sample_encode ?m), PublishCb (next_call (adp x)) None]"
    using connected_thing_publishes [OF x(1) x(2,3) _ x(5) sample_plan_eq x(6), of "''21''"]
    by (auto simp: Let_def)
  ultimately show ?thesis
    by blast
qed

text \<open>
  A client that has disconnected can publish no more: its key is erased, so a later packet for any valid
  topic is refused by the things service as malformed, whatever the tables and the caches hold, and
  nothing goes to NATS.
\<close>

theorem disconnected_client_refused:
  assumes "publish_plan topic = Inr pl" and "a' = authorizePublish cl topic payload (clientDisconnect cfg now cl a)"
  shows "\<exists>token. calls a' (next_call a) = Some (PublishCall cl token pl payload) \<and>
    fst (grpc_CanAccessByKey pg_uuid token (channelId pl) s) = Inl InvalidArgument \<and>
    trace (on_reply encode cfg now' (next_call a) (fst (grpc_CanAccessByKey pg_uuid token (channelId pl) s)) a') =
      trace a' @ [Warn ''unauthorized publish: %s'' [MessageOf InvalidArgument], PublishCb (next_call a) (Some (Status InvalidArgument))]"
  using assms
  by (simp add: authorizePublish_def clientDisconnect_def Let_def proto_text_def grpc_CanAccessByKey_def encode_response_def
      encodeError_def on_reply_def onAuthorize_publish_def)

theorem disconnected_client_refused_witness:
  "calls (authorizePublish 1 ''channels/c1/messages'' ''21'' (clientDisconnect sample_config 0 1 sample_adapter)) 0 \<noteq> None \<and>
   (\<exists>token. fst (grpc_CanAccessByKey pg_text token ''c1'' sample_service) = Inl InvalidArgument)"
  using disconnected_client_refused [OF sample_plan_eq refl, of 1 "''21''" sample_config 0 sample_adapter pg_text sample_service sample_encode 0]
  by (auto simp: sample_adapter_def new_adapter_def sample_plan_def)

theorem answered_exactly_once_witness:
  "\<exists>x. phases x 1 = Connected \<and> (\<forall>n. answer_count n (adp (x :: things_state system)) =
     (if n < next_call (adp x) \<and> calls (adp x) n = None then 1 else 0))"
proof -
  obtain x where "run pg_text Some sample_encode sample_decode sample_config (new_system sample_service) x" "phases x 1 = Connected"
    using sample_connected by blast
  then show ?thesis
    using answered_exactly_once [of _ _ _ sample_encode sample_decode sample_config sample_service x] by blast
qed

theorem waiting_can_be_answered_witness:
  "\<exists>x y. calls (adp x) 0 = Some (IdentifyCall 1 ''k1'') \<and>
     run pg_text Some sample_encode sample_decode sample_config x y \<and> answer_count 0 (adp y) = 1"
proof -
  let ?x = "(new_system sample_service)\<lparr>adp := authenticate_client 1 (Some ''k1'') (named_client 1 ''dev'' new_adapter),
    phases := (\<lambda>_. Fresh)(1 := Authenticating)\<rparr>"
  have "run pg_text Some sample_encode sample_decode sample_config (new_system sample_service) ?x"
    using sys_step.authenticate [of "new_system sample_service" 1] by (auto simp: new_system_def)
  moreover have "calls (adp ?x) 0 = Some (IdentifyCall 1 ''k1'')"
    by (simp add: authenticate_client_def named_client_def new_adapter_def js_or_def)
  ultimately show ?thesis
    using waiting_can_be_answered [of _ _ _ sample_encode sample_decode sample_config sample_service ?x 0] by blast
qed

end
